theory Spec2Isabelle
  imports Main
begin

section \<open>Outcomes of a call\<close>

text \<open>
  A member function of \<open>Vector<T>\<close> either returns or leaves by an exception.
  \<open>ArrayOutOfRange\<close> is the class of that name in \<open>vector.h\<close>; \<open>ElementFailure\<close> stands
  for whatever a constructor of \<open>T\<close> throws, \<open>BadAlloc\<close> for a throwing \<open>operator new\<close>.
\<close>

datatype error = ArrayOutOfRange | ElementFailure | BadAlloc

datatype 'r outcome = Returns 'r | Throws error

section \<open>The template parameter and the memory provider\<close>

text \<open>
  \<open>Vector\<close> is a template over \<open>T\<close>. What the container uses of \<open>T\<close> are its special member
  functions and its comparison operators; they are the fields of \<open>elem_type\<close>. Values of
  \<open>T\<close> are of type \<open>'a\<close>. Constructors may throw, and whether they do may depend on state
  outside the container (a construction counter, say): that state is \<open>'w\<close>, and every
  constructor and destructor call threads it.

  \<^item> \<open>default_ctor\<close>: \<open>T()\<close>, the constructed value or \<open>None\<close> when it throws;
  \<^item> \<open>copy_ctor x\<close>: \<open>T(const T&)\<close>; \<open>True\<close> when the copy (an object of value \<open>x\<close>) is made,
    \<open>False\<close> when it throws;
  \<^item> \<open>move_ctor x\<close>: \<open>T(T&&)\<close>; whether the new object (of value \<open>x\<close>) is made, and the
    value the moved-from source is left with;
  \<^item> \<open>dtor\<close>: \<open>~T()\<close>, which does not throw;
  \<^item> \<open>elem_eq\<close>, \<open>elem_less\<close>: \<open>operator==\<close> and \<open>operator<\<close> of \<open>T\<close>;
  \<^item> \<open>op_new n\<close>: whether the global \<open>operator new\<close> grants storage for \<open>n\<close> objects.
\<close>

record ('a, 'w) elem_type =
  default_ctor :: "'w \<Rightarrow> 'a option \<times> 'w"
  copy_ctor :: "'a \<Rightarrow> 'w \<Rightarrow> bool \<times> 'w"
  move_ctor :: "'a \<Rightarrow> 'w \<Rightarrow> bool \<times> 'a \<times> 'w"
  dtor :: "'a \<Rightarrow> 'w \<Rightarrow> 'w"
  elem_eq :: "'a \<Rightarrow> 'a \<Rightarrow> bool"
  elem_less :: "'a \<Rightarrow> 'a \<Rightarrow> bool"
  op_new :: "nat \<Rightarrow> 'w \<Rightarrow> bool \<times> 'w"

section \<open>Raw storage\<close>

text \<open>
  The free store maps the address of each block obtained from \<open>operator new\<close> to its
  slots. A slot is \<open>None\<close> while it is raw memory and \<open>Some x\<close> while an object of value
  \<open>x\<close> lives in it. \<open>brk\<close> is the next address the provider hands out. \<open>ub\<close> records that
  the program has done something the language leaves undefined (destroyed or read an
  object that is not there, written outside a block, freed what is not allocated).
  A \<open>Pointer\<close> is the address of a block, \<open>None\<close> for \<open>nullptr\<close>; \<open>p + i\<close> of the source
  is the pair of \<open>p\<close> and the index \<open>i\<close>. \<open>size_t\<close> values are natural numbers: the
  products \<open>n * sizeof(T)\<close> in \<open>Allocate\<close> and \<open>capacity_ * 2\<close> in the tail operations are
  taken not to wrap, and a block granted for \<open>n\<close> objects has \<open>n\<close> slots.
\<close>

type_synonym Pointer = "nat option"

type_synonym Reference = "Pointer \<times> nat"

record ('a, 'w) world =
  heap :: "nat \<Rightarrow> 'a option list option"
  brk :: nat
  env :: 'w
  ub :: bool

definition slots :: "('a, 'w) world \<Rightarrow> Pointer \<Rightarrow> 'a option list" where
  "slots w p = (case p of None \<Rightarrow> [] | Some a \<Rightarrow> (case heap w a of None \<Rightarrow> [] | Some b \<Rightarrow> b))"

definition peek :: "('a, 'w) world \<Rightarrow> Pointer \<Rightarrow> nat \<Rightarrow> 'a option" where
  "peek w p i = (if i < length (slots w p) then slots w p ! i else None)"

definition deref :: "('a, 'w) world \<Rightarrow> Reference \<Rightarrow> 'a option" where
  "deref w r = peek w (fst r) (snd r)"

definition put_slot :: "Pointer \<Rightarrow> nat \<Rightarrow> 'a option \<Rightarrow> ('a, 'w) world \<Rightarrow> ('a, 'w) world" where
  "put_slot p i s w =
     (case p of
        None \<Rightarrow> w\<lparr>ub := True\<rparr>
      | Some a \<Rightarrow>
          (case heap w a of
             None \<Rightarrow> w\<lparr>ub := True\<rparr>
           | Some b \<Rightarrow>
               if i < length b then w\<lparr>heap := (heap w)(a := Some (b[i := s]))\<rparr>
               else w\<lparr>ub := True\<rparr>))"

text \<open>The effect of a placement \<open>new (p + i) T(...)\<close> whose constructor made the value \<open>x\<close>.\<close>

definition construct_at :: "Pointer \<Rightarrow> nat \<Rightarrow> 'a \<Rightarrow> ('a, 'w) world \<Rightarrow> ('a, 'w) world" where
  "construct_at p i x w = put_slot p i (Some x) w"

text \<open>\<open>std::destroy_at(p + i)\<close>: runs the destructor; the slot is raw memory again.\<close>

definition destroy_at :: "('a, 'w) elem_type \<Rightarrow> Pointer \<Rightarrow> nat \<Rightarrow> ('a, 'w) world \<Rightarrow> ('a, 'w) world" where
  "destroy_at T p i w =
     (case peek w p i of
        None \<Rightarrow> w\<lparr>ub := True\<rparr>
      | Some x \<Rightarrow> put_slot p i None (w\<lparr>env := dtor T x (env w)\<rparr>))"

fun destroy_n :: "('a, 'w) elem_type \<Rightarrow> Pointer \<Rightarrow> nat \<Rightarrow> nat \<Rightarrow> ('a, 'w) world \<Rightarrow> ('a, 'w) world" where
  "destroy_n T p i 0 w = w"
| "destroy_n T p i (Suc k) w = destroy_n T p (Suc i) k (destroy_at T p i w)"

text \<open>\<open>std::destroy(p + i, p + j)\<close>.\<close>

definition destroy :: "('a, 'w) elem_type \<Rightarrow> Pointer \<Rightarrow> nat \<Rightarrow> nat \<Rightarrow> ('a, 'w) world \<Rightarrow> ('a, 'w) world" where
  "destroy T p i j w = destroy_n T p i (j - i) w"

definition operator_new :: "('a, 'w) elem_type \<Rightarrow> nat \<Rightarrow> ('a, 'w) world \<Rightarrow> Pointer outcome \<times> ('a, 'w) world" where
  "operator_new T n w =
     (case op_new T n (env w) of
        (False, e) \<Rightarrow> (Throws BadAlloc, w\<lparr>env := e\<rparr>)
      | (True, e) \<Rightarrow>
          (Returns (Some (brk w)),
           w\<lparr>heap := (heap w)(brk w := Some (replicate n None)), brk := Suc (brk w), env := e\<rparr>))"

definition operator_delete :: "nat \<Rightarrow> ('a, 'w) world \<Rightarrow> ('a, 'w) world" where
  "operator_delete a w =
     (case heap w a of
        None \<Rightarrow> w\<lparr>ub := True\<rparr>
      | Some b \<Rightarrow> w\<lparr>heap := (heap w)(a := None)\<rparr>)"

section \<open>The algorithms of the standard library the vector calls\<close>

text \<open>
  \<open>vector.h\<close> builds its elements with \<open><memory>\<close>'s algorithms on uninitialised
  storage. Each of them constructs objects slot by slot and, when a constructor throws,
  destroys the objects it has constructed itself before the exception leaves it.

  A constructor call is a function from the outside state to the constructed value (or
  \<open>None\<close> when it throws) and the new outside state: \<open>default_ctor T\<close> for \<open>T()\<close>,
  \<open>copy_of T x\<close> for \<open>T(x)\<close> with \<open>x\<close> a \<open>const T&\<close>, \<open>move_of T x\<close> for
  \<open>T(std::move(x))\<close> with \<open>x\<close> an object outside the vector's storage.
\<close>

definition copy_of :: "('a, 'w) elem_type \<Rightarrow> 'a \<Rightarrow> 'w \<Rightarrow> 'a option \<times> 'w" where
  "copy_of T x e = (case copy_ctor T x e of (ok, e') \<Rightarrow> (if ok then Some x else None, e'))"


text \<open>\<open>new (p + i) T(...)\<close>, the constructor call being \<open>mk\<close>.\<close>

definition placement_new ::
  "('w \<Rightarrow> 'a option \<times> 'w) \<Rightarrow> Pointer \<Rightarrow> nat \<Rightarrow> ('a, 'w) world \<Rightarrow> unit outcome \<times> ('a, 'w) world" where
  "placement_new mk p i w =
     (case mk (env w) of
        (None, e) \<Rightarrow> (Throws ElementFailure, w\<lparr>env := e\<rparr>)
      | (Some x, e) \<Rightarrow> (Returns (), construct_at p i x (w\<lparr>env := e\<rparr>)))"




text \<open>
  \<open>std::uninitialized_move(src, src + n, dst)\<close>: the move constructor builds \<open>dst[i]\<close>
  from \<open>src[i]\<close> and leaves \<open>src[i]\<close> in its moved-from state. When it throws, the objects
  already built in \<open>dst\<close> are destroyed; the sources moved from so far stay moved-from.
\<close>

fun move_loop ::
  "('a, 'w) elem_type \<Rightarrow> Pointer \<Rightarrow> Pointer \<Rightarrow> nat \<Rightarrow> nat \<Rightarrow> ('a, 'w) world \<Rightarrow> unit outcome \<times> ('a, 'w) world" where
  "move_loop T src dst i 0 w = (Returns (), w)"
| "move_loop T src dst i (Suc k) w =
     (case peek w src i of
        None \<Rightarrow> (Returns (), w\<lparr>ub := True\<rparr>)
      | Some x \<Rightarrow>
          (case move_ctor T x (env w) of
             (False, r, e) \<Rightarrow>
               (Throws ElementFailure, destroy T dst 0 i (put_slot src i (Some r) (w\<lparr>env := e\<rparr>)))
           | (True, r, e) \<Rightarrow>
               move_loop T src dst (Suc i) k
                 (construct_at dst i x (put_slot src i (Some r) (w\<lparr>env := e\<rparr>)))))"

definition uninitialized_move ::
  "('a, 'w) elem_type \<Rightarrow> Pointer \<Rightarrow> nat \<Rightarrow> Pointer \<Rightarrow> ('a, 'w) world \<Rightarrow> unit outcome \<times> ('a, 'w) world" where
  "uninitialized_move T src n dst w = move_loop T src dst 0 n w"

text \<open>
  \<open>std::uninitialized_copy(src, src + n, dst)\<close> from the storage of another vector, and
  from a sequence of values (an initializer list, or a range of forward iterators).
\<close>

fun copy_loop ::
  "('a, 'w) elem_type \<Rightarrow> Pointer \<Rightarrow> Pointer \<Rightarrow> nat \<Rightarrow> nat \<Rightarrow> ('a, 'w) world \<Rightarrow> unit outcome \<times> ('a, 'w) world" where
  "copy_loop T src dst i 0 w = (Returns (), w)"
| "copy_loop T src dst i (Suc k) w =
     (case peek w src i of
        None \<Rightarrow> (Returns (), w\<lparr>ub := True\<rparr>)
      | Some x \<Rightarrow>
          (case copy_ctor T x (env w) of
             (False, e) \<Rightarrow> (Throws ElementFailure, destroy T dst 0 i (w\<lparr>env := e\<rparr>))
           | (True, e) \<Rightarrow> copy_loop T src dst (Suc i) k (construct_at dst i x (w\<lparr>env := e\<rparr>))))"

definition uninitialized_copy ::
  "('a, 'w) elem_type \<Rightarrow> Pointer \<Rightarrow> nat \<Rightarrow> Pointer \<Rightarrow> ('a, 'w) world \<Rightarrow> unit outcome \<times> ('a, 'w) world" where
  "uninitialized_copy T src n dst w = copy_loop T src dst 0 n w"



text \<open>
  \<open>std::equal(p, p + n, q)\<close> and \<open>std::lexicographical_compare(p, p + n, q, q + m)\<close>,
  reading the two ranges from index \<open>i\<close> on.
\<close>

fun equal_loop :: "('a, 'w) elem_type \<Rightarrow> ('a, 'w) world \<Rightarrow> Pointer \<Rightarrow> Pointer \<Rightarrow> nat \<Rightarrow> nat \<Rightarrow> bool" where
  "equal_loop T w p q i 0 = True"
| "equal_loop T w p q i (Suc k) =
     (case (peek w p i, peek w q i) of
        (Some x, Some y) \<Rightarrow> if elem_eq T x y then equal_loop T w p q (Suc i) k else False
      | _ \<Rightarrow> False)"

definition std_equal :: "('a, 'w) elem_type \<Rightarrow> ('a, 'w) world \<Rightarrow> Pointer \<Rightarrow> nat \<Rightarrow> Pointer \<Rightarrow> bool" where
  "std_equal T w p n q = equal_loop T w p q 0 n"

function lexicographical_compare_loop ::
  "('a, 'w) elem_type \<Rightarrow> ('a, 'w) world \<Rightarrow> Pointer \<Rightarrow> nat \<Rightarrow> Pointer \<Rightarrow> nat \<Rightarrow> nat \<Rightarrow> bool" where
  "lexicographical_compare_loop T w p n q m i =
     (if i < n \<and> i < m then
        (case (peek w p i, peek w q i) of
           (Some x, Some y) \<Rightarrow>
             if elem_less T x y then True
             else if elem_less T y x then False
             else lexicographical_compare_loop T w p n q m (Suc i)
         | _ \<Rightarrow> False)
      else \<not> i < n \<and> i < m)"
  by pat_completeness auto
termination
  by (relation "measure (\<lambda>(T, w, p, n, q, m, i). n - i)") auto

definition lexicographical_compare ::
  "('a, 'w) elem_type \<Rightarrow> ('a, 'w) world \<Rightarrow> Pointer \<Rightarrow> nat \<Rightarrow> Pointer \<Rightarrow> nat \<Rightarrow> bool" where
  "lexicographical_compare T w p n q m = lexicographical_compare_loop T w p n q m 0"

section \<open>The vector\<close>

text \<open>The data members \<open>size_\<close>, \<open>capacity_\<close> and \<open>data_\<close>.\<close>

record vec =
  m_size :: nat
  m_capacity :: nat
  m_data :: Pointer

definition Allocate :: "('a, 'w) elem_type \<Rightarrow> nat \<Rightarrow> ('a, 'w) world \<Rightarrow> Pointer outcome \<times> ('a, 'w) world" where
  "Allocate T n w = (if n = 0 then (Returns None, w) else operator_new T n w)"

definition Deallocate :: "Pointer \<Rightarrow> ('a, 'w) world \<Rightarrow> ('a, 'w) world" where
  "Deallocate p w = (case p of None \<Rightarrow> w | Some a \<Rightarrow> operator_delete a w)"

text \<open>
  The live elements, and the representation the members are meant to keep: \<open>size_\<close>
  objects at the front of a block of \<open>capacity_\<close> slots, raw memory behind them, and no
  block at all when \<open>capacity_\<close> is zero.
\<close>

definition elems :: "('a, 'w) world \<Rightarrow> vec \<Rightarrow> 'a list" where
  "elems w v = map the (take (m_size v) (slots w (m_data v)))"

definition vec_ok :: "('a, 'w) world \<Rightarrow> vec \<Rightarrow> bool" where
  "vec_ok w v =
     (m_size v \<le> m_capacity v \<and>
      (case m_data v of
         None \<Rightarrow> m_capacity v = 0
       | Some a \<Rightarrow>
           0 < m_capacity v \<and>
           (case heap w a of
              None \<Rightarrow> False
            | Some b \<Rightarrow>
                length b = m_capacity v \<and>
                list_all (\<lambda>s. s \<noteq> None) (take (m_size v) b) \<and>
                list_all (\<lambda>s. s = None) (drop (m_size v) b))))"

text \<open>
  The provider has never handed out an address from \<open>brk\<close> on, so the block it hands
  out next is not one in use.
\<close>

definition heap_ok :: "('a, 'w) world \<Rightarrow> bool" where
  "heap_ok w = (\<forall>a\<ge>brk w. heap w a = None)"

text \<open>
  \<open>store_is w' h w\<close>: the world \<open>w'\<close> has the blocks \<open>h\<close> and is otherwise \<open>w\<close>, up to the
  outside state of the element type.
\<close>

definition store_is ::
  "('a, 'w) world \<Rightarrow> (nat \<Rightarrow> 'a option list option) \<Rightarrow> ('a, 'w) world \<Rightarrow> bool" where
  "store_is w' h w = ((\<forall>a. heap w' a = h a) \<and> brk w' = brk w \<and> ub w' = ub w)"

subsection \<open>Constructors and destructor\<close>

definition Vector_default :: vec where
  "Vector_default = \<lparr>m_size = 0, m_capacity = 0, m_data = None\<rparr>"




definition Vector_copy ::
  "('a, 'w) elem_type \<Rightarrow> vec \<Rightarrow> ('a, 'w) world \<Rightarrow> vec outcome \<times> ('a, 'w) world" where
  "Vector_copy T other w =
     (case Allocate T (m_capacity other) w of
        (Throws e, w0) \<Rightarrow> (Throws e, w0)
      | (Returns d, w0) \<Rightarrow>
          (case uninitialized_copy T (m_data other) (m_size other) d w0 of
             (Throws e, w1) \<Rightarrow> (Throws e, Deallocate d w1)
           | (Returns u, w1) \<Rightarrow>
               (Returns \<lparr>m_size = m_size other, m_capacity = m_capacity other, m_data = d\<rparr>, w1)))"

text \<open>The move constructor: the new object and what is left of \<open>other\<close>.\<close>

definition Vector_move :: "vec \<Rightarrow> vec \<times> vec" where
  "Vector_move other =
     (\<lparr>m_size = m_size other, m_capacity = m_capacity other, m_data = m_data other\<rparr>,
      other\<lparr>m_size := 0, m_capacity := 0, m_data := None\<rparr>)"

definition Clear :: "('a, 'w) elem_type \<Rightarrow> vec \<Rightarrow> ('a, 'w) world \<Rightarrow> vec \<times> ('a, 'w) world" where
  "Clear T v w =
     (if m_data v \<noteq> None then (v\<lparr>m_size := 0\<rparr>, destroy T (m_data v) 0 (m_size v) w)
      else (v, w))"

text \<open>The destructor; the object is gone afterwards, what remains is the store.\<close>

definition Vector_dtor :: "('a, 'w) elem_type \<Rightarrow> vec \<Rightarrow> ('a, 'w) world \<Rightarrow> ('a, 'w) world" where
  "Vector_dtor T v w = (case Clear T v w of (v', w') \<Rightarrow> Deallocate (m_data v') w')"

subsection \<open>Observers and element access\<close>

definition Size :: "vec \<Rightarrow> nat" where
  "Size v = m_size v"

definition Capacity :: "vec \<Rightarrow> nat" where
  "Capacity v = m_capacity v"

definition Empty :: "vec \<Rightarrow> bool" where
  "Empty v = (m_size v = 0)"

definition Data :: "vec \<Rightarrow> Pointer" where
  "Data v = m_data v"

text \<open>\<open>At\<close>, in its const and non-const overloads, which have the same body.\<close>

definition At :: "nat \<Rightarrow> vec \<Rightarrow> ('a, 'w) world \<Rightarrow> Reference outcome \<times> vec \<times> ('a, 'w) world" where
  "At index v w =
     (if index \<ge> m_size v then (Throws ArrayOutOfRange, v, w)
      else (Returns (m_data v, index), v, w))"

subsection \<open>Swap\<close>

text \<open>The three \<open>std::swap\<close>s of \<open>Swap\<close>, on two distinct objects: the pair after the call.\<close>

definition Swap :: "vec \<Rightarrow> vec \<Rightarrow> vec \<times> vec" where
  "Swap v other =
     (v\<lparr>m_size := m_size other, m_capacity := m_capacity other, m_data := m_data other\<rparr>,
      other\<lparr>m_size := m_size v, m_capacity := m_capacity v, m_data := m_data v\<rparr>)"

subsection \<open>Growing and shrinking\<close>

text \<open>
  \<open>Resize\<close> (both overloads), \<open>Reserve\<close>, \<open>ShrinkToFit\<close>, \<open>PushBack\<close> (both overloads) and
  \<open>EmplaceBack\<close> each contain the same block of statements, which differs only in the
  capacity asked for and in the statement \<open>extra\<close> that follows \<open>std::uninitialized_move\<close>
  inside the \<open>try\<close>:
  \<^verbatim>\<open>
      Pointer new_data = Allocate(new_cap);
      try {
        std::uninitialized_move(data_, data_ + size_, new_data);
        extra
      }
      catch (...) {
        std::destroy(new_data, new_data + size_);
        Deallocate(new_data);
        throw;
      }
      std::destroy(data_, data_ + size_);
      Deallocate(data_);
      data_ = new_data;
      capacity_ = new_cap;
  \<close>
  \<open>Reallocate\<close> is that block.
\<close>

definition Reallocate ::
  "('a, 'w) elem_type \<Rightarrow> nat \<Rightarrow> (Pointer \<Rightarrow> ('a, 'w) world \<Rightarrow> unit outcome \<times> ('a, 'w) world) \<Rightarrow>
   vec \<Rightarrow> ('a, 'w) world \<Rightarrow> unit outcome \<times> vec \<times> ('a, 'w) world" where
  "Reallocate T new_cap extra v w =
     (case Allocate T new_cap w of
        (Throws e, w0) \<Rightarrow> (Throws e, v, w0)
      | (Returns new_data, w0) \<Rightarrow>
          (case (case uninitialized_move T (m_data v) (m_size v) new_data w0 of
                   (Throws e, w1) \<Rightarrow> (Throws e, w1)
                 | (Returns u, w1) \<Rightarrow> extra new_data w1) of
             (Throws e, w2) \<Rightarrow>
               (Throws e, v, Deallocate new_data (destroy T new_data 0 (m_size v) w2))
           | (Returns u, w2) \<Rightarrow>
               (Returns (), v\<lparr>m_data := new_data, m_capacity := new_cap\<rparr>,
                Deallocate (m_data v) (destroy T (m_data v) 0 (m_size v) w2))))"

definition no_extra :: "Pointer \<Rightarrow> ('a, 'w) world \<Rightarrow> unit outcome \<times> ('a, 'w) world" where
  "no_extra new_data w = (Returns (), w)"




definition Reserve ::
  "('a, 'w) elem_type \<Rightarrow> nat \<Rightarrow> vec \<Rightarrow> ('a, 'w) world \<Rightarrow> unit outcome \<times> vec \<times> ('a, 'w) world" where
  "Reserve T new_cap v w =
     (if new_cap > m_capacity v then Reallocate T new_cap no_extra v w
      else (Returns (), v, w))"

definition ShrinkToFit ::
  "('a, 'w) elem_type \<Rightarrow> vec \<Rightarrow> ('a, 'w) world \<Rightarrow> unit outcome \<times> vec \<times> ('a, 'w) world" where
  "ShrinkToFit T v w =
     (if m_size v = 0 then
        (Returns (), v\<lparr>m_data := None, m_capacity := 0\<rparr>, Deallocate (m_data v) w)
      else if m_size v < m_capacity v then Reallocate T (m_size v) no_extra v w
      else (Returns (), v, w))"

subsection \<open>The tail\<close>


text \<open>\<open>PushBack(const T&)\<close>.\<close>

definition PushBack ::
  "('a, 'w) elem_type \<Rightarrow> 'a \<Rightarrow> vec \<Rightarrow> ('a, 'w) world \<Rightarrow> unit outcome \<times> vec \<times> ('a, 'w) world" where
  "PushBack T val v w =
     (if m_size v = m_capacity v then
        (let new_capacity = (if m_capacity v = 0 then 1 else m_capacity v * 2) in
         case Reallocate T new_capacity
                (\<lambda>new_data. placement_new (copy_of T val) new_data (m_size v)) v w of
           (Throws e, v', w') \<Rightarrow> (Throws e, v', w')
         | (Returns u, v', w') \<Rightarrow> (Returns (), v'\<lparr>m_size := Suc (m_size v')\<rparr>, w'))
      else
        (case placement_new (copy_of T val) (m_data v) (m_size v) w of
           (Throws e, w') \<Rightarrow> (Throws e, v, w')
         | (Returns u, w') \<Rightarrow> (Returns (), v\<lparr>m_size := Suc (m_size v)\<rparr>, w')))"




subsection \<open>Comparison\<close>

definition op_eq :: "('a, 'w) elem_type \<Rightarrow> ('a, 'w) world \<Rightarrow> vec \<Rightarrow> vec \<Rightarrow> bool" where
  "op_eq T w v other =
     (m_size v = m_size other \<and> std_equal T w (m_data v) (m_size v) (m_data other))"

definition op_ne :: "('a, 'w) elem_type \<Rightarrow> ('a, 'w) world \<Rightarrow> vec \<Rightarrow> vec \<Rightarrow> bool" where
  "op_ne T w v other = (\<not> op_eq T w v other)"

definition op_lt :: "('a, 'w) elem_type \<Rightarrow> ('a, 'w) world \<Rightarrow> vec \<Rightarrow> vec \<Rightarrow> bool" where
  "op_lt T w v other =
     lexicographical_compare T w (m_data v) (m_size v) (m_data other) (m_size other)"

definition op_gt :: "('a, 'w) elem_type \<Rightarrow> ('a, 'w) world \<Rightarrow> vec \<Rightarrow> vec \<Rightarrow> bool" where
  "op_gt T w v other = op_lt T w other v"

definition op_le :: "('a, 'w) elem_type \<Rightarrow> ('a, 'w) world \<Rightarrow> vec \<Rightarrow> vec \<Rightarrow> bool" where
  "op_le T w v other = (\<not> op_lt T w other v)"

definition op_ge :: "('a, 'w) elem_type \<Rightarrow> ('a, 'w) world \<Rightarrow> vec \<Rightarrow> vec \<Rightarrow> bool" where
  "op_ge T w v other = (\<not> op_lt T w v other)"

subsection \<open>Assignment\<close>

text \<open>
  The assignment operators compare \<open>this\<close> with \<open>&other\<close>, so here the two vectors are
  given by their addresses in a table of the program's \<open>Vector\<close> objects.
\<close>

type_synonym objects = "nat \<Rightarrow> vec"

definition copy_assign ::
  "('a, 'w) elem_type \<Rightarrow> nat \<Rightarrow> nat \<Rightarrow> objects \<Rightarrow> ('a, 'w) world \<Rightarrow>
   unit outcome \<times> objects \<times> ('a, 'w) world" where
  "copy_assign T this other os w =
     (if this \<noteq> other then
        (case Vector_copy T (os other) w of
           (Throws e, w1) \<Rightarrow> (Throws e, os, w1)
         | (Returns tmp, w1) \<Rightarrow>
             (case Swap (os this) tmp of
                (this', tmp') \<Rightarrow> (Returns (), os(this := this'), Vector_dtor T tmp' w1)))
      else (Returns (), os, w))"

definition move_assign ::
  "('a, 'w) elem_type \<Rightarrow> nat \<Rightarrow> nat \<Rightarrow> objects \<Rightarrow> ('a, 'w) world \<Rightarrow> objects \<times> ('a, 'w) world" where
  "move_assign T this other os w =
     (if this \<noteq> other then
        (case Clear T (os this) w of
           (v1, w1) \<Rightarrow>
             (os(this := v1\<lparr>m_size := m_size (os other), m_capacity := m_capacity (os other),
                            m_data := m_data (os other)\<rparr>,
                 other := (os other)\<lparr>m_size := 0, m_capacity := 0, m_data := None\<rparr>),
              Deallocate (m_data v1) w1))
      else (os, w))"

section \<open>What the specification names\<close>

text \<open>
  The lexicographic order on sequences induced by an element ordering \<open>lt\<close>, as the
  specification's "lexicographic comparison using element ordering" reads: the first
  position where one element is below the other decides, and a proper prefix is below
  the longer sequence.
\<close>

fun lexicographic_less :: "('a \<Rightarrow> 'a \<Rightarrow> bool) \<Rightarrow> 'a list \<Rightarrow> 'a list \<Rightarrow> bool" where
  "lexicographic_less lt [] [] = False"
| "lexicographic_less lt [] (y # ys) = True"
| "lexicographic_less lt (x # xs) [] = False"
| "lexicographic_less lt (x # xs) (y # ys) =
     (lt x y \<or> (\<not> lt y x \<and> lexicographic_less lt xs ys))"


text \<open>
  What is left of a vector \<open>v\<close> in store \<open>w\<close> after a growth that was given up: the data
  members are those of before, the block is still a well-formed block of the vector,
  no other block has changed, and each element is either as it was or what the move
  constructor of \<open>T\<close> left behind when it moved that element out.
\<close>

definition rolled_back ::
  "('a, 'w) elem_type \<Rightarrow> vec \<Rightarrow> ('a, 'w) world \<Rightarrow> vec \<Rightarrow> ('a, 'w) world \<Rightarrow> bool" where
  "rolled_back T v w v' w' =
     (v' = v \<and> vec_ok w' v \<and> (\<forall>a. m_data v \<noteq> Some a \<longrightarrow> heap w' a = heap w a) \<and>
      ub w' = ub w \<and> heap_ok w' \<and>
      list_all2 (\<lambda>x r. r = x \<or> (\<exists>e e'. move_ctor T x e = (True, r, e')))
        (elems w v) (elems w' v))"

section \<open>The public interface as calls\<close>





section \<open>Concrete element types\<close>

text \<open>
  \<open>IntT\<close> is \<open>int\<close>: nothing throws, a move is a copy, storage is always granted.
  \<open>empty_world e\<close> is a store with no block yet.
\<close>

definition IntT :: "(int, unit) elem_type" where
  "IntT = \<lparr>default_ctor = (\<lambda>e. (Some 0, e)), copy_ctor = (\<lambda>x e. (True, e)),
           move_ctor = (\<lambda>x e. (True, x, e)), dtor = (\<lambda>x e. e),
           elem_eq = (=), elem_less = (<), op_new = (\<lambda>n e. (True, e))\<rparr>"


text \<open>A vector holding 1 and 2 in a block of three slots.\<close>

definition ints_world :: "(int, unit) world" where
  "ints_world = \<lparr>heap = (\<lambda>a. None)(0 := Some [Some 1, Some 2, None]), brk = 1, env = (), ub = False\<rparr>"

definition ints_vec :: vec where
  "ints_vec = \<lparr>m_size = 2, m_capacity = 3, m_data = Some 0\<rparr>"

text \<open>Four vectors of \<open>int\<close> in one store: [1, 2], [1, 2, 3], [1, 3] and [1].\<close>

definition cmp_world :: "(int, unit) world" where
  "cmp_world =
     \<lparr>heap = (\<lambda>a. None)(0 := Some [Some 1, Some 2], 1 := Some [Some 1, Some 2, Some 3],
                           2 := Some [Some 1, Some 3], 3 := Some [Some 1]),
      brk = 4, env = (), ub = False\<rparr>"

definition vec_1_2 :: vec where
  "vec_1_2 = \<lparr>m_size = 2, m_capacity = 2, m_data = Some 0\<rparr>"

definition vec_1_2_3 :: vec where
  "vec_1_2_3 = \<lparr>m_size = 3, m_capacity = 3, m_data = Some 1\<rparr>"

definition vec_1_3 :: vec where
  "vec_1_3 = \<lparr>m_size = 2, m_capacity = 2, m_data = Some 2\<rparr>"

definition vec_1 :: vec where
  "vec_1 = \<lparr>m_size = 1, m_capacity = 1, m_data = Some 3\<rparr>"

text \<open>A table of objects with [1, 2] at address 0 and [1, 2, 3] at address 1.\<close>

definition two_objects :: objects where
  "two_objects = (\<lambda>i. Vector_default)(0 := vec_1_2, 1 := vec_1_2_3)"

text \<open>
  \<open>Fragile\<close> is an element type made to fail on a chosen construction: its outside state
  counts the constructions that still succeed, and the one after them throws. Its move
  constructor takes the value over and leaves 0 in the source, as a type that owns a
  resource does. \<open>fragile_world k\<close> holds the vector \<open>fragile_vec\<close> = [7] in a full block
  of one slot, with \<open>k\<close> constructions to go before the failure.
\<close>

definition Fragile :: "(int, nat) elem_type" where
  "Fragile =
     \<lparr>default_ctor = (\<lambda>k. if k = 0 then (None, 0) else (Some 0, k - 1)),
      copy_ctor = (\<lambda>x k. if k = 0 then (False, 0) else (True, k - 1)),
      move_ctor = (\<lambda>x k. if k = 0 then (False, x, 0) else (True, 0, k - 1)),
      dtor = (\<lambda>x k. k),
      elem_eq = (=), elem_less = (<), op_new = (\<lambda>n k. (True, k))\<rparr>"

definition fragile_world :: "nat \<Rightarrow> (int, nat) world" where
  "fragile_world k = \<lparr>heap = (\<lambda>a. None)(0 := Some [Some 7]), brk = 1, env = k, ub = False\<rparr>"

definition fragile_vec :: vec where
  "fragile_vec = \<lparr>m_size = 1, m_capacity = 1, m_data = Some 0\<rparr>"


section \<open>Basic facts about storage\<close>

lemma vec_ok_length: "vec_ok w v \<Longrightarrow> length (slots w (m_data v)) = m_capacity v"
  by (auto simp: vec_ok_def slots_def split: option.splits)

lemma vec_ok_le: "vec_ok w v \<Longrightarrow> m_size v \<le> m_capacity v"
  by (simp add: vec_ok_def)

lemma vec_ok_live: "vec_ok w v \<Longrightarrow> i < m_size v \<Longrightarrow> slots w (m_data v) ! i \<noteq> None"
  by (auto simp: vec_ok_def slots_def list_all_length split: option.splits)

lemma vec_ok_raw:
  assumes "vec_ok w v" and "m_size v \<le> i" and "i < m_capacity v"
  shows "slots w (m_data v) ! i = None"
proof -
  have l: "length (slots w (m_data v)) = m_capacity v"
    using assms(1) by (rule vec_ok_length)
  have "list_all (\<lambda>s. s = None) (drop (m_size v) (slots w (m_data v)))"
    using assms(1,3) by (auto simp: vec_ok_def slots_def split: option.splits)
  then have r: "\<And>n. n < m_capacity v - m_size v \<Longrightarrow> slots w (m_data v) ! (m_size v + n) = None"
    using l by (simp add: list_all_length)
  show ?thesis
    using r[of "i - m_size v"] assms(2,3) by simp
qed

lemma length_elems: "vec_ok w v \<Longrightarrow> length (elems w v) = m_size v"
  by (simp add: elems_def vec_ok_length vec_ok_le)

lemma elems_nth:
  assumes "vec_ok w v" and "i < m_size v"
  shows "peek w (m_data v) i = Some (elems w v ! i)"
  using vec_ok_length[OF assms(1)] vec_ok_le[OF assms(1)] vec_ok_live[OF assms] assms(2)
  by (auto simp: elems_def peek_def)

section \<open>Storage primitives and loops\<close>

lemma put_slot_Some:
  "heap w a = Some b \<Longrightarrow> i < length b \<Longrightarrow>
   put_slot (Some a) i s w = w\<lparr>heap := (heap w)(a := Some (b[i := s]))\<rparr>"
  by (simp add: put_slot_def)

lemma peek_Some:
  "heap w a = Some b \<Longrightarrow> i < length b \<Longrightarrow> peek w (Some a) i = b ! i"
  by (simp add: peek_def slots_def)

lemma store_is_refl: "store_is w (heap w) w"
  unfolding store_is_def by simp

lemma destroy_n_live:
  assumes "heap w a = Some (pre @ map Some xs @ post)" and "length pre = i"
  shows "store_is (destroy_n T (Some a) i (length xs) w)
           ((heap w)(a := Some (pre @ replicate (length xs) None @ post))) w"
  using assms
proof (induction xs arbitrary: pre i w)
  case Nil
  then show ?case unfolding store_is_def by (simp add: fun_upd_idem)
next
  case (Cons x xs)
  let ?w1 = "destroy_at T (Some a) i w"
  have w1: "?w1 = w\<lparr>heap := (heap w)(a := Some ((pre @ [None]) @ map Some xs @ post)),
                     env := dtor T x (env w)\<rparr>"
    using Cons.prems
    by (simp add: destroy_at_def peek_Some put_slot_Some nth_append list_update_append)
  have "store_is (destroy_n T (Some a) (Suc i) (length xs) ?w1)
           ((heap ?w1)(a := Some ((pre @ [None]) @ replicate (length xs) None @ post))) ?w1"
    by (rule Cons.IH) (use Cons.prems w1 in simp_all)
  then show ?case
    unfolding store_is_def by (simp add: w1 replicate_app_Cons_same)
qed

lemma destroy_live:
  assumes "heap w a = Some (map Some xs @ post)"
  shows "store_is (destroy T (Some a) 0 (length xs) w)
           ((heap w)(a := Some (replicate (length xs) None @ post))) w"
  using destroy_n_live[of w a "[]" xs post 0 T] assms by (simp add: destroy_def)



lemma move_loop_Returns:
  assumes "heap w s = Some (spre @ map Some xs @ spost)" and "length spre = i"
    and "heap w d = Some (pre @ mid @ post)" and "length pre = i" and "length mid = length xs"
    and "s \<noteq> d"
    and "move_loop T (Some s) (Some d) i (length xs) w = (Returns (), w')"
  shows "\<exists>rs. length rs = length xs \<and>
              list_all2 (\<lambda>x r. \<exists>e e'. move_ctor T x e = (True, r, e')) xs rs \<and>
              store_is w' ((heap w)(s := Some (spre @ map Some rs @ spost),
                                    d := Some (pre @ map Some xs @ post))) w"
  using assms
proof (induction xs arbitrary: spre pre mid i w)
  case Nil
  then show ?case unfolding store_is_def by (intro exI[of _ "[]"]) (simp add: fun_upd_idem)
next
  case (Cons x xs)
  obtain m mid' where mid: "mid = m # mid'" and lm: "length mid' = length xs"
    using Cons.prems(5) by (cases mid) auto
  have pk: "peek w (Some s) i = Some x"
    using Cons.prems(1,2) by (simp add: peek_Some nth_append)
  obtain ok r e where mv: "move_ctor T x (env w) = (ok, r, e)"
    by (cases "move_ctor T x (env w)")
  have ok: "ok" using Cons.prems(7) pk mv by (cases ok) auto
  let ?w1 = "construct_at (Some d) i x (put_slot (Some s) i (Some r) (w\<lparr>env := e\<rparr>))"
  have w1: "?w1 = w\<lparr>env := e,
                     heap := (heap w)(s := Some ((spre @ [Some r]) @ map Some xs @ spost),
                                      d := Some ((pre @ [Some x]) @ mid' @ post))\<rparr>"
    using Cons.prems(1-4,6) mid
    by (simp add: construct_at_def put_slot_Some list_update_append)
  have run: "move_loop T (Some s) (Some d) (Suc i) (length xs) ?w1 = (Returns (), w')"
    using Cons.prems(7) pk mv ok by simp
  have "\<exists>rs. length rs = length xs \<and>
              list_all2 (\<lambda>x r. \<exists>e e'. move_ctor T x e = (True, r, e')) xs rs \<and>
              store_is w' ((heap ?w1)(s := Some ((spre @ [Some r]) @ map Some rs @ spost),
                                    d := Some ((pre @ [Some x]) @ map Some xs @ post))) ?w1"
    by (rule Cons.IH[OF _ _ _ _ lm Cons.prems(6) run]) (use Cons.prems(2,4,6) w1 in simp_all)
  then obtain rs where rs: "length rs = length xs"
    "list_all2 (\<lambda>x r. \<exists>e e'. move_ctor T x e = (True, r, e')) xs rs"
    "store_is w' ((heap ?w1)(s := Some ((spre @ [Some r]) @ map Some rs @ spost),
                                    d := Some ((pre @ [Some x]) @ map Some xs @ post))) ?w1"
    by blast
  have "store_is w' ((heap w)(s := Some (spre @ map Some (r # rs) @ spost),
                                    d := Some (pre @ map Some (x # xs) @ post))) w"
    using rs(3) Cons.prems(6) unfolding store_is_def by (simp add: w1)
  moreover have "list_all2 (\<lambda>x r. \<exists>e e'. move_ctor T x e = (True, r, e')) (x # xs) (r # rs)"
    using rs(2) mv ok by auto
  ultimately show ?case
    using rs(1) by (intro exI[of _ "r # rs"]) (simp add: store_is_def)
qed

lemma store_is_heap: "store_is w' h w \<Longrightarrow> heap w' a = h a"
  by (simp add: store_is_def)

lemma store_is_brk: "store_is w' h w \<Longrightarrow> brk w' = brk w"
  by (simp add: store_is_def)

lemma store_is_ub: "store_is w' h w \<Longrightarrow> ub w' = ub w"
  by (simp add: store_is_def)

lemma all_Some_map: "list_all (\<lambda>s. s \<noteq> None) xs \<Longrightarrow> map Some (map the xs) = xs"
  by (induction xs) auto

lemma all_None_replicate: "list_all (\<lambda>s. s = None) xs \<Longrightarrow> xs = replicate (length xs) None"
  by (induction xs) auto

lemma vec_ok_block:
  assumes "vec_ok w v" and "m_data v = Some a"
  shows "heap w a = Some (map Some (elems w v) @ replicate (m_capacity v - m_size v) None)"
proof -
  obtain b where b: "heap w a = Some b" "length b = m_capacity v"
    "list_all (\<lambda>s. s \<noteq> None) (take (m_size v) b)" "list_all (\<lambda>s. s = None) (drop (m_size v) b)"
    using assms by (auto simp: vec_ok_def split: option.splits)
  have "map Some (elems w v) = take (m_size v) b"
    using all_Some_map[OF b(3)] b(1) assms(2) by (simp add: elems_def slots_def)
  moreover have "replicate (m_capacity v - m_size v) None = drop (m_size v) b"
    using all_None_replicate[OF b(4)] b(2) by simp
  ultimately show ?thesis using b(1) by simp
qed

lemma vec_ok_null:
  assumes "vec_ok w v" and "m_data v = None"
  shows "m_size v = 0" and "m_capacity v = 0" and "elems w v = []"
  using assms by (auto simp: vec_ok_def elems_def slots_def)

lemma vec_okI:
  assumes "m_data v = Some a" and "heap w a = Some (map Some xs @ replicate k None)"
    and "m_size v = length xs" and "m_capacity v = length xs + k" and "0 < m_capacity v"
  shows "vec_ok w v" and "elems w v = xs"
proof -
  show "vec_ok w v"
    using assms by (simp add: vec_ok_def list_all_iff)
  show "elems w v = xs"
    using assms by (simp add: elems_def slots_def comp_def)
qed

lemma Allocate_Returns:
  assumes "Allocate T n w = (Returns d, w0)" and "0 < n"
  shows "d = Some (brk w)" and "store_is w0 ((heap w)(brk w := Some (replicate n None))) (w\<lparr>brk := Suc (brk w)\<rparr>)"
  using assms
  by (auto simp: Allocate_def operator_new_def store_is_def split: prod.splits bool.splits if_splits)

lemma Allocate_cases:
  "(\<exists>e w0. Allocate T n w = (Throws e, w0)) \<or> (\<exists>d w0. Allocate T n w = (Returns d, w0))"
  by (cases "Allocate T n w"; cases "fst (Allocate T n w)") auto

lemma heap_ok_fresh: "heap_ok w \<Longrightarrow> heap w a = Some b \<Longrightarrow> a \<noteq> brk w"
  by (auto simp: heap_ok_def)

lemma Reallocate_Returns:
  assumes ok: "vec_ok w v" and hk: "heap_ok w" and cap: "0 < new_cap" "m_size v + m \<le> new_cap"
    and extra: "\<And>w1 w2 pre post.
        heap w1 (brk w) = Some (pre @ replicate m None @ post) \<Longrightarrow> length pre = m_size v \<Longrightarrow>
        extra (Some (brk w)) w1 = (Returns (), w2) \<Longrightarrow>
        \<exists>ys. length ys = m \<and> Q ys \<and>
             store_is w2 ((heap w1)(brk w := Some (pre @ map Some ys @ post))) w1"
    and run: "Reallocate T new_cap extra v w = (Returns (), v', w')"
  shows "\<exists>ys. length ys = m \<and> Q ys \<and>
          v' = v\<lparr>m_data := Some (brk w), m_capacity := new_cap\<rparr> \<and>
          heap w' (brk w) = Some (map Some (elems w v @ ys) @ replicate (new_cap - (m_size v + m)) None) \<and>
          (\<forall>a. a \<noteq> brk w \<longrightarrow> heap w' a = (if m_data v = Some a then None else heap w a)) \<and>
          brk w' = Suc (brk w) \<and> ub w' = ub w"
proof -
  let ?n = "m_size v"
  let ?xs = "elems w v"
  have len: "length ?xs = ?n" using ok by (rule length_elems)
  obtain r0 w0 where al: "Allocate T new_cap w = (r0, w0)" by (cases "Allocate T new_cap w")
  obtain nd where r0: "r0 = Returns nd"
    using run al by (cases r0) (auto simp: Reallocate_def)
  have nd: "nd = Some (brk w)"
    and w0: "store_is w0 ((heap w)(brk w := Some (replicate new_cap None))) (w\<lparr>brk := Suc (brk w)\<rparr>)"
    using Allocate_Returns[OF al[unfolded r0] cap(1)] by auto
  obtain r1 w1 where mv: "uninitialized_move T (m_data v) ?n nd w0 = (r1, w1)"
    by (cases "uninitialized_move T (m_data v) ?n nd w0")
  have r1: "r1 = Returns ()"
    using run al r0 mv by (cases r1) (auto simp: Reallocate_def)
  obtain r2 w2 where ex: "extra nd w1 = (r2, w2)" by (cases "extra nd w1")
  have r2: "r2 = Returns ()"
    using run al r0 mv r1 ex by (cases r2) (auto simp: Reallocate_def)
  have res: "v' = v\<lparr>m_data := nd, m_capacity := new_cap\<rparr>"
    "w' = Deallocate (m_data v) (destroy T (m_data v) 0 ?n w2)"
    using run al r0 mv r1 ex r2 by (auto simp: Reallocate_def)
  have split_raw: "replicate new_cap None = replicate ?n (None::'a option) @ replicate (new_cap - ?n) None"
    using cap(2) by (simp flip: replicate_add)
  have split_raw2: "replicate (new_cap - ?n) None
        = replicate m (None::'a option) @ replicate (new_cap - (?n + m)) None"
    using cap(2) by (simp flip: replicate_add)
  show ?thesis
  proof (cases "m_data v")
    case None
    have n0: "?n = 0" and e0: "?xs = []" using vec_ok_null[OF ok None] by auto
    have w1: "w1 = w0" using mv n0 by (simp add: uninitialized_move_def)
    have "heap w1 (brk w) = Some ([] @ replicate m None @ replicate (new_cap - (?n + m)) None)"
      using store_is_heap[OF w0, of "brk w"] w1 n0 split_raw2 by simp
    from extra[OF this _ ex[unfolded nd r2]] n0
    obtain ys where ys: "length ys = m" "Q ys"
      "store_is w2 ((heap w1)(brk w := Some ([] @ map Some ys @ replicate (new_cap - (?n + m)) None))) w1"
      by auto
    have w': "w' = w2" using res(2) None n0 by (simp add: Deallocate_def destroy_def)
    have "heap w' (brk w) = Some (map Some (?xs @ ys) @ replicate (new_cap - (?n + m)) None)"
      using store_is_heap[OF ys(3), of "brk w"] w' e0 by simp
    moreover have "\<forall>a. a \<noteq> brk w \<longrightarrow> heap w' a = (if m_data v = Some a then None else heap w a)"
      using store_is_heap[OF ys(3)] store_is_heap[OF w0] w' w1 None by simp
    moreover have "brk w' = Suc (brk w)" "ub w' = ub w"
      using store_is_brk[OF ys(3)] store_is_brk[OF w0] store_is_ub[OF ys(3)] store_is_ub[OF w0] w' w1
      by simp_all
    ultimately show ?thesis using ys(1,2) res(1) nd by blast
  next
    case (Some a)
    have blk: "heap w a = Some (map Some ?xs @ replicate (m_capacity v - ?n) None)"
      using vec_ok_block[OF ok Some] .
    have ne: "a \<noteq> brk w" using heap_ok_fresh[OF hk blk] .
    have s0: "heap w0 a = Some ([] @ map Some ?xs @ replicate (m_capacity v - ?n) None)"
      using store_is_heap[OF w0, of a] ne blk by simp
    have d0: "heap w0 (brk w) = Some ([] @ replicate ?n None @ replicate (new_cap - ?n) None)"
      using store_is_heap[OF w0, of "brk w"] split_raw by simp
    have run1: "move_loop T (Some a) (Some (brk w)) 0 (length ?xs) w0 = (Returns (), w1)"
      using mv r1 nd Some len by (simp add: uninitialized_move_def)
    from move_loop_Returns[OF s0 _ d0 _ _ ne run1] len
    obtain rs where rs: "length rs = ?n"
      "store_is w1 ((heap w0)(a := Some ([] @ map Some rs @ replicate (m_capacity v - ?n) None),
                              brk w := Some ([] @ map Some ?xs @ replicate (new_cap - ?n) None))) w0"
      by auto
    have "heap w1 (brk w) = Some (map Some ?xs @ replicate m None @ replicate (new_cap - (?n + m)) None)"
      using store_is_heap[OF rs(2), of "brk w"] split_raw2 by simp
    from extra[OF this _ ex[unfolded nd r2]] len
    obtain ys where ys: "length ys = m" "Q ys"
      "store_is w2 ((heap w1)(brk w := Some (map Some ?xs @ map Some ys @ replicate (new_cap - (?n + m)) None))) w1"
      by auto
    have s2: "heap w2 a = Some (map Some rs @ replicate (m_capacity v - ?n) None)"
      using store_is_heap[OF ys(3), of a] store_is_heap[OF rs(2), of a] ne by simp
    let ?w3 = "destroy T (Some a) 0 (length rs) w2"
    have w3: "store_is ?w3 ((heap w2)(a := Some (replicate (length rs) None @ replicate (m_capacity v - ?n) None))) w2"
      using destroy_live[OF s2] .
    have w': "w' = ?w3\<lparr>heap := (heap ?w3)(a := None)\<rparr>"
      using res(2) Some rs(1) store_is_heap[OF w3, of a]
      by (simp add: Deallocate_def operator_delete_def)
    have "heap w' (brk w) = Some (map Some (?xs @ ys) @ replicate (new_cap - (?n + m)) None)"
      using store_is_heap[OF w3, of "brk w"] store_is_heap[OF ys(3), of "brk w"] w' ne by simp
    moreover have "\<forall>a'. a' \<noteq> brk w \<longrightarrow> heap w' a' = (if m_data v = Some a' then None else heap w a')"
      using store_is_heap[OF w3] store_is_heap[OF ys(3)] store_is_heap[OF rs(2)] store_is_heap[OF w0]
        w' Some by simp
    moreover have "brk w' = Suc (brk w)" "ub w' = ub w"
      using store_is_brk[OF w3] store_is_brk[OF ys(3)] store_is_brk[OF rs(2)] store_is_brk[OF w0]
        store_is_ub[OF w3] store_is_ub[OF ys(3)] store_is_ub[OF rs(2)] store_is_ub[OF w0] w'
      by simp_all
    ultimately show ?thesis using ys(1,2) res(1) nd by blast
  qed
qed

lemma Reallocate_post:
  assumes ok: "vec_ok w v" and hk: "heap_ok w" and cap: "0 < new_cap" "m_size v + m \<le> new_cap"
    and extra: "\<And>w1 w2 pre post.
        heap w1 (brk w) = Some (pre @ replicate m None @ post) \<Longrightarrow> length pre = m_size v \<Longrightarrow>
        extra (Some (brk w)) w1 = (Returns (), w2) \<Longrightarrow>
        \<exists>ys. length ys = m \<and> Q ys \<and>
             store_is w2 ((heap w1)(brk w := Some (pre @ map Some ys @ post))) w1"
    and run: "Reallocate T new_cap extra v w = (Returns (), v', w')"
  shows "\<exists>ys. length ys = m \<and> Q ys \<and>
          v' = v\<lparr>m_data := Some (brk w), m_capacity := new_cap\<rparr> \<and>
          vec_ok w' (v'\<lparr>m_size := m_size v + m\<rparr>) \<and>
          elems w' (v'\<lparr>m_size := m_size v + m\<rparr>) = elems w v @ ys \<and>
          heap_ok w' \<and> ub w' = ub w"
proof -
  from Reallocate_Returns[OF ok hk cap extra run]
  obtain ys where ys: "length ys = m" "Q ys"
    "v' = v\<lparr>m_data := Some (brk w), m_capacity := new_cap\<rparr>"
    "heap w' (brk w) = Some (map Some (elems w v @ ys) @ replicate (new_cap - (m_size v + m)) None)"
    "\<forall>a. a \<noteq> brk w \<longrightarrow> heap w' a = (if m_data v = Some a then None else heap w a)"
    "brk w' = Suc (brk w)" "ub w' = ub w"
    by blast
  let ?v = "v'\<lparr>m_size := m_size v + m\<rparr>"
  have l: "length (elems w v @ ys) = m_size v + m"
    using length_elems[OF ok] ys(1) by simp
  have "m_data ?v = Some (brk w)" "m_size ?v = length (elems w v @ ys)"
    "m_capacity ?v = length (elems w v @ ys) + (new_cap - (m_size v + m))" "0 < m_capacity ?v"
    using ys(3) cap l by simp_all
  from vec_okI[OF this(1) ys(4) this(2,3,4)]
  have "vec_ok w' ?v" "elems w' ?v = elems w v @ ys" .
  moreover have "heap_ok w'"
    using hk ys(5,6) by (auto simp: heap_ok_def)
  ultimately show ?thesis using ys(1,2,3,7) by blast
qed






section \<open>Checked access\<close>

text \<open>
  C2. \<open>At(i)\<close> throws \<open>ArrayOutOfRange\<close> exactly when \<open>i \<ge> size_\<close> (so also at
  \<open>i = size_\<close>, and at \<open>i = 0\<close> on an empty vector); for \<open>i < size_\<close> it returns a reference
  to the slot holding element \<open>i\<close>; and in either case neither the vector nor the store
  is changed.
\<close>

theorem At_checked:
  "(fst (At i v w) = Throws ArrayOutOfRange) = (m_size v \<le> i) \<and>
   (vec_ok w v \<and> i < m_size v \<longrightarrow>
      (\<exists>r. fst (At i v w) = Returns r \<and> deref w r = Some (elems w v ! i))) \<and>
   snd (At i v w) = (v, w)"
  by (auto simp: At_def deref_def elems_nth)

theorem At_checked_witness:
  "vec_ok \<lparr>heap = (\<lambda>a. None)(1 := Some [Some (5::int), Some 6, None]), brk = 2, env = (), ub = False\<rparr>
          \<lparr>m_size = 2, m_capacity = 3, m_data = Some 1\<rparr> \<and> (1::nat) < 2 \<and>
   fst (At 1 \<lparr>m_size = 2, m_capacity = 3, m_data = Some 1\<rparr>
          \<lparr>heap = (\<lambda>a. None)(1 := Some [Some (5::int), Some 6, None]), brk = 2, env = (), ub = False\<rparr>)
     = Returns (Some 1, 1) \<and>
   deref \<lparr>heap = (\<lambda>a. None)(1 := Some [Some (5::int), Some 6, None]), brk = 2, env = (), ub = False\<rparr>
         (Some 1, 1) = Some 6 \<and>
   fst (At 2 \<lparr>m_size = 2, m_capacity = 3, m_data = Some 1\<rparr>
          \<lparr>heap = (\<lambda>a. None)(1 := Some [Some (5::int), Some 6, None]), brk = 2, env = (), ub = False\<rparr>)
     = Throws ArrayOutOfRange"
  using At_checked [of 1 "\<lparr>m_size = 2, m_capacity = 3, m_data = Some 1\<rparr>"
      "\<lparr>heap = (\<lambda>a. None)(1 := Some [Some (5::int), Some 6, None]), brk = 2, env = (), ub = False\<rparr>"]
  by (simp add: vec_ok_def At_def deref_def peek_def slots_def)

section \<open>Appending at the tail\<close>









section \<open>Resizing\<close>





lemma vec_ok_data:
  assumes "vec_ok w v" and "0 < m_capacity v"
  obtains a where "m_data v = Some a"
  using assms by (cases "m_data v") (auto simp: vec_ok_def)




lemma ints_ok: "vec_ok ints_world ints_vec"
  by (simp add: vec_ok_def ints_world_def ints_vec_def)

lemma ints_heap_ok: "heap_ok ints_world"
  by (simp add: heap_ok_def ints_world_def)

lemma ints_elems: "elems ints_world ints_vec = [1, 2]"
  by (simp add: elems_def slots_def ints_world_def ints_vec_def)

lemma Returns_eq: "fst r = Returns () \<Longrightarrow> r = (Returns (), fst (snd r), snd (snd r))"
  by (simp add: prod_eq_iff)


section \<open>Reserving and shrinking\<close>

lemma Reallocate_fields:
  assumes "Reallocate T nc extra v w = (r, v', w')"
  shows "(\<exists>e. r = Throws e \<and> v' = v) \<or>
         (r = Returns () \<and> m_size v' = m_size v \<and> m_capacity v' = nc \<and>
          (m_data v' = None) = (nc = 0))"
  using assms
  by (auto simp: Reallocate_def Allocate_def operator_new_def
      split: prod.splits outcome.splits bool.splits if_splits)

lemma no_extra_spec:
  assumes "heap w1 b = Some (pre @ replicate 0 None @ post)" and "length pre = k"
    and "no_extra (Some b) w1 = (Returns (), w2)"
  shows "\<exists>ys. length ys = 0 \<and> True \<and> store_is w2 ((heap w1)(b := Some (pre @ map Some ys @ post))) w1"
  using assms by (intro exI[of _ "[]"]) (simp add: no_extra_def store_is_def)

lemma Reallocate_no_extra:
  assumes ok: "vec_ok w v" and hk: "heap_ok w" and cap: "0 < nc" "m_size v \<le> nc"
    and run: "Reallocate T nc no_extra v w = (Returns (), v', w')"
  shows "v' = v\<lparr>m_data := Some (brk w), m_capacity := nc\<rparr>" and "vec_ok w' v'"
    and "elems w' v' = elems w v" and "heap_ok w'" and "ub w' = ub w"
    and "\<forall>a. m_data v = Some a \<longrightarrow> heap w' a = None"
proof -
  have c: "0 < nc" "m_size v + 0 \<le> nc" using cap by simp_all
  have "\<exists>ys. length ys = 0 \<and> True \<and>
          v' = v\<lparr>m_data := Some (brk w), m_capacity := nc\<rparr> \<and>
          vec_ok w' (v'\<lparr>m_size := m_size v + 0\<rparr>) \<and>
          elems w' (v'\<lparr>m_size := m_size v + 0\<rparr>) = elems w v @ ys \<and>
          heap_ok w' \<and> ub w' = ub w"
    by (rule Reallocate_post[OF ok hk c _ run]) (rule no_extra_spec)
  then have *: "v' = v\<lparr>m_data := Some (brk w), m_capacity := nc\<rparr>"
    "vec_ok w' (v'\<lparr>m_size := m_size v\<rparr>)" "elems w' (v'\<lparr>m_size := m_size v\<rparr>) = elems w v"
    "heap_ok w'" "ub w' = ub w"
    by auto
  have same: "v'\<lparr>m_size := m_size v\<rparr> = v'" using *(1) by simp
  show "v' = v\<lparr>m_data := Some (brk w), m_capacity := nc\<rparr>" "vec_ok w' v'"
    "elems w' v' = elems w v" "heap_ok w'" "ub w' = ub w"
    using * same by simp_all
  have "\<exists>ys. length ys = 0 \<and> True \<and>
          v' = v\<lparr>m_data := Some (brk w), m_capacity := nc\<rparr> \<and>
          heap w' (brk w) = Some (map Some (elems w v @ ys) @ replicate (nc - (m_size v + 0)) None) \<and>
          (\<forall>a. a \<noteq> brk w \<longrightarrow> heap w' a = (if m_data v = Some a then None else heap w a)) \<and>
          brk w' = Suc (brk w) \<and> ub w' = ub w"
    by (rule Reallocate_Returns[OF ok hk c _ run]) (rule no_extra_spec)
  then have fr: "\<forall>a. a \<noteq> brk w \<longrightarrow> heap w' a = (if m_data v = Some a then None else heap w a)"
    by blast
  show "\<forall>a. m_data v = Some a \<longrightarrow> heap w' a = None"
  proof (intro allI impI)
    fix a assume a: "m_data v = Some a"
    have "a \<noteq> brk w" using heap_ok_fresh[OF hk vec_ok_block[OF ok a]] .
    with fr a show "heap w' a = None" by simp
  qed
qed

lemma Reserve_Returns:
  assumes ok: "vec_ok w v" and hk: "heap_ok w"
    and run: "Reserve T n v w = (Returns (), v', w')"
  shows "m_size v' = m_size v" and "elems w' v' = elems w v"
    and "m_capacity v' = (if m_capacity v < n then n else m_capacity v)"
    and "vec_ok w' v'" and "heap_ok w'"
proof -
  have "m_size v' = m_size v \<and> elems w' v' = elems w v \<and>
    m_capacity v' = (if m_capacity v < n then n else m_capacity v) \<and> vec_ok w' v' \<and> heap_ok w'"
  proof (cases "m_capacity v < n")
    case True
    then have re: "Reallocate T n no_extra v w = (Returns (), v', w')"
      using run by (simp add: Reserve_def)
    have c: "0 < n" "m_size v \<le> n" using True vec_ok_le[OF ok] by simp_all
    from Reallocate_no_extra[OF ok hk c re] True show ?thesis by simp
  next
    case False
    then have "v' = v" "w' = w" using run by (simp_all add: Reserve_def)
    then show ?thesis using ok hk False by simp
  qed
  then show "m_size v' = m_size v" "elems w' v' = elems w v"
    "m_capacity v' = (if m_capacity v < n then n else m_capacity v)" "vec_ok w' v'" "heap_ok w'"
    by simp_all
qed



lemma ShrinkToFit_Returns:
  assumes ok: "vec_ok w v" and hk: "heap_ok w"
    and run: "ShrinkToFit T v w = (Returns (), v', w')"
  shows "m_size v' = m_size v \<and> elems w' v' = elems w v \<and> m_capacity v' = m_size v \<and>
         m_data v' = (if m_size v = 0 then None
                      else if m_size v < m_capacity v then Some (brk w) else m_data v) \<and>
         (\<forall>a. m_data v = Some a \<and> m_size v < m_capacity v \<longrightarrow> heap w' a = None) \<and>
         (m_size v = m_capacity v \<longrightarrow> v' = v \<and> w' = w) \<and>
         vec_ok w' v' \<and> heap_ok w' \<and> ub w' = ub w"
proof -
  consider (empty) "m_size v = 0" | (slack) "0 < m_size v" "m_size v < m_capacity v"
    | (full) "0 < m_size v" "m_size v = m_capacity v"
    using vec_ok_le[OF ok] by linarith
  then show ?thesis
  proof cases
    case empty
    have res: "v' = v\<lparr>m_data := None, m_capacity := 0\<rparr>" "w' = Deallocate (m_data v) w"
      using run empty by (simp_all add: ShrinkToFit_def)
    show ?thesis
    proof (cases "m_data v")
      case None
      have c0: "m_capacity v = 0" using vec_ok_null[OF ok None] by simp
      then have "v' = v" "w' = w" using res None by (simp_all add: Deallocate_def)
      then show ?thesis using ok hk empty None c0 by simp
    next
      case (Some a)
      have blk: "heap w a = Some (map Some (elems w v) @ replicate (m_capacity v - m_size v) None)"
        using vec_ok_block[OF ok Some] .
      then have w': "w' = w\<lparr>heap := (heap w)(a := None)\<rparr>"
        using res(2) Some by (simp add: Deallocate_def operator_delete_def)
      have "0 < m_capacity v" using ok Some by (simp add: vec_ok_def)
      moreover have "vec_ok w' v'" using res(1) empty by (simp add: vec_ok_def)
      moreover have "elems w' v' = elems w v" using res(1) empty by (simp add: elems_def)
      moreover have "heap_ok w'" using hk w' by (simp add: heap_ok_def)
      ultimately show ?thesis using res(1) w' empty Some by simp
    qed
  next
    case slack
    then have re: "Reallocate T (m_size v) no_extra v w = (Returns (), v', w')"
      using run by (simp add: ShrinkToFit_def)
    from Reallocate_no_extra[OF ok hk slack(1) le_refl re] slack show ?thesis by simp
  next
    case full
    then have "v' = v" "w' = w" using run by (simp_all add: ShrinkToFit_def)
    then show ?thesis using ok hk full by simp
  qed
qed

text \<open>
  C9. A \<open>ShrinkToFit\<close> that returns leaves the length and the elements as they were and
  the capacity equal to the length. With no elements the vector ends with no block
  (and capacity 0); with fewer elements than slots the elements are in a new block of
  exactly \<open>length\<close> slots; in both cases the old block has been released. With as many
  elements as slots neither the vector nor the store changes.
\<close>

theorem ShrinkToFit_result:
  assumes "vec_ok w v" and "heap_ok w" and "ShrinkToFit T v w = (Returns (), v', w')"
  shows "m_size v' = m_size v \<and> elems w' v' = elems w v \<and> m_capacity v' = m_size v \<and>
         vec_ok w' v' \<and>
         m_data v' = (if m_size v = 0 then None
                      else if m_size v < m_capacity v then Some (brk w) else m_data v) \<and>
         (\<forall>a. m_data v = Some a \<and> m_size v < m_capacity v \<longrightarrow> heap w' a = None) \<and>
         (m_size v = m_capacity v \<longrightarrow> v' = v \<and> w' = w)"
  using ShrinkToFit_Returns[OF assms] by simp

theorem ShrinkToFit_result_witness:
  "vec_ok ints_world ints_vec \<and> heap_ok ints_world \<and>
   fst (ShrinkToFit IntT ints_vec ints_world) = Returns () \<and>
   m_capacity (fst (snd (ShrinkToFit IntT ints_vec ints_world))) = 2 \<and>
   elems (snd (snd (ShrinkToFit IntT ints_vec ints_world)))
         (fst (snd (ShrinkToFit IntT ints_vec ints_world))) = [1, 2] \<and>
   m_data (fst (snd (ShrinkToFit IntT ints_vec ints_world))) = Some 1 \<and>
   heap (snd (snd (ShrinkToFit IntT ints_vec ints_world))) 0 = None"
proof -
  define r where "r = ShrinkToFit IntT ints_vec ints_world"
  have fr: "fst r = Returns ()" unfolding r_def by code_simp
  have er: "ShrinkToFit IntT ints_vec ints_world = (Returns (), fst (snd r), snd (snd r))"
    using fr unfolding r_def by (simp add: prod_eq_iff)
  note th = ShrinkToFit_result[OF ints_ok ints_heap_ok er]
  have "m_capacity (fst (snd r)) = 2" "elems (snd (snd r)) (fst (snd r)) = [1, 2]"
    "m_data (fst (snd r)) = Some 1" "heap (snd (snd r)) 0 = None"
    using th by (simp_all add: ints_elems) (simp_all add: ints_vec_def ints_world_def)
  with ints_ok ints_heap_ok fr
  have "vec_ok ints_world ints_vec \<and> heap_ok ints_world \<and> fst r = Returns () \<and>
    m_capacity (fst (snd r)) = 2 \<and> elems (snd (snd r)) (fst (snd r)) = [1, 2] \<and>
    m_data (fst (snd r)) = Some 1 \<and> heap (snd (snd r)) 0 = None"
    by blast
  then show ?thesis unfolding r_def .
qed

section \<open>Comparison\<close>

lemma equal_loop_nth:
  assumes "\<And>j. i \<le> j \<Longrightarrow> j < i + k \<Longrightarrow> peek w p j = Some (xs ! j) \<and> peek w q j = Some (ys ! j)"
  shows "equal_loop T w p q i k = (\<forall>j. i \<le> j \<and> j < i + k \<longrightarrow> elem_eq T (xs ! j) (ys ! j))"
  using assms
proof (induction k arbitrary: i)
  case 0
  then show ?case by auto
next
  case (Suc k)
  have here: "peek w p i = Some (xs ! i)" "peek w q i = Some (ys ! i)"
    using Suc.prems[of i] by simp_all
  have rest: "equal_loop T w p q (Suc i) k
      = (\<forall>j. Suc i \<le> j \<and> j < Suc i + k \<longrightarrow> elem_eq T (xs ! j) (ys ! j))"
    by (rule Suc.IH) (use Suc.prems in simp)
  have "(\<forall>j. i \<le> j \<and> j < i + Suc k \<longrightarrow> elem_eq T (xs ! j) (ys ! j))
      = (elem_eq T (xs ! i) (ys ! i) \<and> (\<forall>j. Suc i \<le> j \<and> j < Suc i + k \<longrightarrow> elem_eq T (xs ! j) (ys ! j)))"
    by (auto simp: Suc_le_eq elim: le_neq_trans[rotated] dest: le_neq_implies_less)
  then show ?case using here rest by simp
qed

lemma lexicographical_compare_loop_drop:
  assumes "\<And>j. j < length xs \<Longrightarrow> peek w p j = Some (xs ! j)"
    and "\<And>j. j < length ys \<Longrightarrow> peek w q j = Some (ys ! j)"
    and "i \<le> length xs" and "i \<le> length ys"
  shows "lexicographical_compare_loop T w p (length xs) q (length ys) i
         = lexicographic_less (elem_less T) (drop i xs) (drop i ys)"
  using assms(3,4)
proof (induction "length xs - i" arbitrary: i)
  case 0
  then have "drop i xs = []" by simp
  moreover have "lexicographic_less (elem_less T) [] (drop i ys) = (i < length ys)"
  proof (cases "drop i ys")
    case Nil
    then show ?thesis by simp
  next
    case (Cons y zs)
    then have "i < length ys" by (cases "i < length ys") simp_all
    then show ?thesis using Cons by simp
  qed
  ultimately show ?case using 0 by simp
next
  case (Suc d)
  then have ix: "i < length xs" by simp
  show ?case
  proof (cases "i < length ys")
    case False
    then have "drop i ys = []" by simp
    moreover have "drop i xs \<noteq> []" using ix by simp
    ultimately have "\<not> lexicographic_less (elem_less T) (drop i xs) (drop i ys)"
      by (cases "drop i xs") auto
    then show ?thesis using False ix by simp
  next
    case True
    have dx: "drop i xs = xs ! i # drop (Suc i) xs" using ix by (simp add: Cons_nth_drop_Suc)
    have dy: "drop i ys = ys ! i # drop (Suc i) ys" using True by (simp add: Cons_nth_drop_Suc)
    have IH: "lexicographical_compare_loop T w p (length xs) q (length ys) (Suc i)
         = lexicographic_less (elem_less T) (drop (Suc i) xs) (drop (Suc i) ys)"
      by (rule Suc.hyps(1)) (use Suc.hyps(2) ix True in simp_all)
    show ?thesis
      using ix True assms(1)[OF ix] assms(2)[OF True] IH
      by (subst lexicographical_compare_loop.simps) (simp add: dx dy)
  qed
qed

lemma peek_elems:
  assumes "vec_ok w v" and "j < length (elems w v)"
  shows "peek w (m_data v) j = Some (elems w v ! j)"
  using elems_nth[OF assms(1)] assms(2) length_elems[OF assms(1)] by simp

lemma op_eq_elems:
  assumes "vec_ok w a" and "vec_ok w b"
  shows "op_eq T w a b =
     (m_size a = m_size b \<and> (\<forall>i<m_size a. elem_eq T (elems w a ! i) (elems w b ! i)))"
proof (cases "m_size a = m_size b")
  case False
  then show ?thesis by (simp add: op_eq_def)
next
  case True
  have "equal_loop T w (m_data a) (m_data b) 0 (m_size a)
      = (\<forall>j. 0 \<le> j \<and> j < 0 + m_size a \<longrightarrow> elem_eq T (elems w a ! j) (elems w b ! j))"
    by (rule equal_loop_nth)
      (use elems_nth[OF assms(1)] elems_nth[OF assms(2)] True in simp)
  then show ?thesis using True by (simp add: op_eq_def std_equal_def)
qed

lemma op_lt_elems:
  assumes "vec_ok w a" and "vec_ok w b"
  shows "op_lt T w a b = lexicographic_less (elem_less T) (elems w a) (elems w b)"
  using lexicographical_compare_loop_drop[of "elems w a" w "m_data a" "elems w b" "m_data b" 0 T]
    peek_elems[OF assms(1)] peek_elems[OF assms(2)] length_elems[OF assms(1)] length_elems[OF assms(2)]
  by (simp add: op_lt_def lexicographical_compare_def)

text \<open>
  C8. For well-formed vectors \<open>a\<close> and \<open>b\<close> in one store: \<open>a == b\<close> holds exactly when the
  lengths agree and \<open>operator==\<close> of \<open>T\<close> holds at every index; \<open>a < b\<close> is the lexicographic
  order induced by \<open>operator<\<close> of \<open>T\<close>; \<open>!=\<close> is the negation of \<open>==\<close>, \<open>a > b\<close> is \<open>b < a\<close>,
  \<open>a <= b\<close> is the negation of \<open>b < a\<close>, and \<open>a >= b\<close> the negation of \<open>a < b\<close>. On vectors
  of \<open>int\<close>, [1, 2] < [1, 2, 3] < [1, 3] and [] < [1].
\<close>

theorem comparison_operators:
  assumes "vec_ok w a" and "vec_ok w b"
  shows "op_eq T w a b =
           (m_size a = m_size b \<and> (\<forall>i<m_size a. elem_eq T (elems w a ! i) (elems w b ! i))) \<and>
         op_lt T w a b = lexicographic_less (elem_less T) (elems w a) (elems w b) \<and>
         op_ne T w a b = (\<not> op_eq T w a b) \<and>
         op_gt T w a b = op_lt T w b a \<and>
         op_le T w a b = (\<not> op_lt T w b a) \<and>
         op_ge T w a b = (\<not> op_lt T w a b) \<and>
         op_lt IntT cmp_world vec_1_2 vec_1_2_3 \<and> op_lt IntT cmp_world vec_1_2_3 vec_1_3 \<and>
         op_lt IntT cmp_world Vector_default vec_1"
proof -
  have ex: "op_lt IntT cmp_world vec_1_2 vec_1_2_3" "op_lt IntT cmp_world vec_1_2_3 vec_1_3"
    "op_lt IntT cmp_world Vector_default vec_1"
    by code_simp+
  show ?thesis
    using op_eq_elems[OF assms] op_lt_elems[OF assms] ex
    by (simp add: op_ne_def op_gt_def op_le_def op_ge_def)
qed

lemma cmp_ok: "vec_ok cmp_world vec_1_2" "vec_ok cmp_world vec_1_2_3"
  by (simp_all add: vec_ok_def cmp_world_def vec_1_2_def vec_1_2_3_def)

lemma cmp_elems: "elems cmp_world vec_1_2 = [1, 2]" "elems cmp_world vec_1_2_3 = [1, 2, 3]"
  by (simp_all add: elems_def slots_def cmp_world_def vec_1_2_def vec_1_2_3_def)

theorem comparison_operators_witness:
  "vec_ok cmp_world vec_1_2 \<and> vec_ok cmp_world vec_1_2_3 \<and>
   \<not> op_eq IntT cmp_world vec_1_2 vec_1_2_3 \<and> op_lt IntT cmp_world vec_1_2 vec_1_2_3 \<and>
   op_ne IntT cmp_world vec_1_2 vec_1_2_3 \<and> \<not> op_gt IntT cmp_world vec_1_2 vec_1_2_3 \<and>
   op_le IntT cmp_world vec_1_2 vec_1_2_3 \<and> \<not> op_ge IntT cmp_world vec_1_2 vec_1_2_3"
proof -
  note th = comparison_operators[OF cmp_ok, of IntT]
  have lt: "op_lt IntT cmp_world vec_1_2 vec_1_2_3" using th by blast
  have "op_lt IntT cmp_world vec_1_2_3 vec_1_2
      = lexicographic_less (elem_less IntT) (elems cmp_world vec_1_2_3) (elems cmp_world vec_1_2)"
    using comparison_operators[OF cmp_ok(2,1), of IntT] by blast
  then have nlt: "\<not> op_lt IntT cmp_world vec_1_2_3 vec_1_2"
    by (simp add: cmp_elems IntT_def)
  have "op_eq IntT cmp_world vec_1_2 vec_1_2_3 = (m_size vec_1_2 = m_size vec_1_2_3 \<and>
     (\<forall>i<m_size vec_1_2. elem_eq IntT (elems cmp_world vec_1_2 ! i) (elems cmp_world vec_1_2_3 ! i)))"
    using th by blast
  then have ne: "\<not> op_eq IntT cmp_world vec_1_2 vec_1_2_3"
    by (simp add: vec_1_2_def vec_1_2_3_def)
  have d: "op_ne IntT cmp_world vec_1_2 vec_1_2_3 = (\<not> op_eq IntT cmp_world vec_1_2 vec_1_2_3)"
    "op_gt IntT cmp_world vec_1_2 vec_1_2_3 = op_lt IntT cmp_world vec_1_2_3 vec_1_2"
    "op_le IntT cmp_world vec_1_2 vec_1_2_3 = (\<not> op_lt IntT cmp_world vec_1_2_3 vec_1_2)"
    "op_ge IntT cmp_world vec_1_2 vec_1_2_3 = (\<not> op_lt IntT cmp_world vec_1_2 vec_1_2_3)"
    using th by blast+
  show ?thesis using cmp_ok lt nlt ne d by simp
qed

section \<open>Moving\<close>

lemma Clear_ok:
  assumes ok: "vec_ok w v"
  shows "fst (Clear T v w) = v\<lparr>m_size := 0\<rparr>"
    and "\<And>a. m_data v \<noteq> Some a \<Longrightarrow> heap (snd (Clear T v w)) a = heap w a"
    and "\<And>a. m_data v = Some a \<Longrightarrow> heap (snd (Clear T v w)) a = Some (replicate (m_capacity v) None)"
    and "brk (snd (Clear T v w)) = brk w" and "ub (snd (Clear T v w)) = ub w"
proof -
  have "fst (Clear T v w) = v\<lparr>m_size := 0\<rparr> \<and>
    (\<forall>a. m_data v \<noteq> Some a \<longrightarrow> heap (snd (Clear T v w)) a = heap w a) \<and>
    (\<forall>a. m_data v = Some a \<longrightarrow> heap (snd (Clear T v w)) a = Some (replicate (m_capacity v) None)) \<and>
    brk (snd (Clear T v w)) = brk w \<and> ub (snd (Clear T v w)) = ub w"
  proof (cases "m_data v")
    case None
    then show ?thesis using vec_ok_null[OF ok None] by (simp add: Clear_def)
  next
    case (Some a)
    have blk: "heap w a = Some (map Some (elems w v) @ replicate (m_capacity v - m_size v) None)"
      using vec_ok_block[OF ok Some] .
    have st: "store_is (destroy T (Some a) 0 (length (elems w v)) w)
        ((heap w)(a := Some (replicate (length (elems w v)) None @ replicate (m_capacity v - m_size v) None))) w"
      using destroy_live[OF blk] .
    have cl: "Clear T v w = (v\<lparr>m_size := 0\<rparr>, destroy T (Some a) 0 (length (elems w v)) w)"
      using Some length_elems[OF ok] by (simp add: Clear_def)
    show ?thesis
      using store_is_heap[OF st] store_is_brk[OF st] store_is_ub[OF st] Some cl
        length_elems[OF ok] vec_ok_le[OF ok]
      by (simp flip: replicate_add)
  qed
  then show "fst (Clear T v w) = v\<lparr>m_size := 0\<rparr>"
    and "\<And>a. m_data v \<noteq> Some a \<Longrightarrow> heap (snd (Clear T v w)) a = heap w a"
    and "\<And>a. m_data v = Some a \<Longrightarrow> heap (snd (Clear T v w)) a = Some (replicate (m_capacity v) None)"
    and "brk (snd (Clear T v w)) = brk w" and "ub (snd (Clear T v w)) = ub w"
    by simp_all
qed

lemma Vector_dtor_ok:
  assumes ok: "vec_ok w v"
  shows "\<And>a. heap (Vector_dtor T v w) a = (if m_data v = Some a then None else heap w a)"
    and "brk (Vector_dtor T v w) = brk w" and "ub (Vector_dtor T v w) = ub w"
proof -
  obtain v1 w1 where cl: "Clear T v w = (v1, w1)" by (cases "Clear T v w")
  note c = Clear_ok[OF ok, where T = T, unfolded cl fst_conv snd_conv]
  have d: "Vector_dtor T v w = Deallocate (m_data v) w1"
    using cl c(1) by (simp add: Vector_dtor_def)
  have "(\<forall>a. heap (Vector_dtor T v w) a = (if m_data v = Some a then None else heap w a)) \<and>
    brk (Vector_dtor T v w) = brk w \<and> ub (Vector_dtor T v w) = ub w"
  proof (cases "m_data v")
    case None
    then show ?thesis using d c by (simp add: Deallocate_def)
  next
    case (Some a)
    then show ?thesis using d c(2)[of _] c(3)[OF Some] c(4,5)
      by (auto simp: Deallocate_def operator_delete_def)
  qed
  then show "\<And>a. heap (Vector_dtor T v w) a = (if m_data v = Some a then None else heap w a)"
    and "brk (Vector_dtor T v w) = brk w" and "ub (Vector_dtor T v w) = ub w"
    by simp_all
qed

lemma vec_ok_frame:
  assumes "vec_ok w v" and "\<And>a. m_data v = Some a \<Longrightarrow> heap w' a = heap w a"
  shows "vec_ok w' v" and "elems w' v = elems w v"
  using assms by (auto simp: vec_ok_def elems_def slots_def split: option.splits)

lemma vec_overwrite:
  "(v::vec)\<lparr>m_size := a, m_capacity := b, m_data := c\<rparr> = \<lparr>m_size = a, m_capacity = b, m_data = c\<rparr>"
  by (cases v) simp

lemma vec_eta: "\<lparr>m_size = m_size u, m_capacity = m_capacity u, m_data = m_data u\<rparr> = (u::vec)"
  by (cases u) simp

text \<open>
  C6. The move constructor and move assignment have no failing path (they return no
  outcome, and from well-formed vectors they do nothing undefined). Both leave the
  source with length 0, capacity 0 and no block, and the destination with the data
  members, hence the block and the elements, that the source had. Move assignment
  onto itself changes neither the objects nor the store. For move assignment the two
  vectors are distinct objects with distinct blocks.
\<close>

theorem move_transfers:
  assumes "vec_ok w (os this)" and "vec_ok w (os other)" and "this \<noteq> other"
    and "m_data (os this) = None \<or> m_data (os this) \<noteq> m_data (os other)"
  shows "Vector_move (os other) = (os other, Vector_default) \<and>
         fst (move_assign T this other os w) this = os other \<and>
         fst (move_assign T this other os w) other = Vector_default \<and>
         elems (snd (move_assign T this other os w)) (fst (move_assign T this other os w) this)
           = elems w (os other) \<and>
         vec_ok (snd (move_assign T this other os w)) (fst (move_assign T this other os w) this) \<and>
         ub (snd (move_assign T this other os w)) = ub w \<and>
         move_assign T this this os w = (os, w)"
proof -
  obtain v1 w1 where cl: "Clear T (os this) w = (v1, w1)" by (cases "Clear T (os this) w")
  note c = Clear_ok[OF assms(1), where T = T, unfolded cl fst_conv snd_conv]
  let ?w' = "Deallocate (m_data v1) w1"
  have ma: "move_assign T this other os w =
      (os(this := os other, other := Vector_default), ?w')"
    using assms(3) cl by (simp add: move_assign_def Vector_default_def vec_overwrite vec_eta)
  have dt: "?w' = Vector_dtor T (os this) w" using cl by (simp add: Vector_dtor_def)
  note d = Vector_dtor_ok[OF assms(1), where T = T, folded dt]
  have fr: "\<And>a. m_data (os other) = Some a \<Longrightarrow> heap ?w' a = heap w a"
    using d(1) assms(4) by auto
  note f = vec_ok_frame[OF assms(2) fr]
  show ?thesis
    using ma f d(3) assms(3)
    by (simp add: Vector_move_def Vector_default_def move_assign_def vec_overwrite vec_eta)
qed

section \<open>Copying\<close>

lemma copy_loop_Returns:
  assumes "heap w s = Some (spre @ map Some xs @ spost)" and "length spre = i"
    and "heap w d = Some (pre @ mid @ post)" and "length pre = i" and "length mid = length xs"
    and "s \<noteq> d"
    and "copy_loop T (Some s) (Some d) i (length xs) w = (Returns (), w')"
  shows "store_is w' ((heap w)(d := Some (pre @ map Some xs @ post))) w"
  using assms
proof (induction xs arbitrary: spre pre mid i w)
  case Nil
  then show ?case unfolding store_is_def by (simp add: fun_upd_idem)
next
  case (Cons x xs)
  obtain m mid' where mid: "mid = m # mid'" and lm: "length mid' = length xs"
    using Cons.prems(5) by (cases mid) auto
  have pk: "peek w (Some s) i = Some x"
    using Cons.prems(1,2) by (simp add: peek_Some nth_append)
  obtain ok e where cp: "copy_ctor T x (env w) = (ok, e)"
    by (cases "copy_ctor T x (env w)")
  have ok: "ok" using Cons.prems(7) pk cp by (cases ok) auto
  let ?w1 = "construct_at (Some d) i x (w\<lparr>env := e\<rparr>)"
  have w1: "?w1 = w\<lparr>env := e, heap := (heap w)(d := Some ((pre @ [Some x]) @ mid' @ post))\<rparr>"
    using Cons.prems(3,4) mid
    by (simp add: construct_at_def put_slot_Some list_update_append)
  have run: "copy_loop T (Some s) (Some d) (Suc i) (length xs) ?w1 = (Returns (), w')"
    using Cons.prems(7) pk cp ok by simp
  have s1: "heap ?w1 s = Some ((spre @ [Some x]) @ map Some xs @ spost)"
    using Cons.prems(1,6) by (simp add: w1)
  have "store_is w' ((heap ?w1)(d := Some ((pre @ [Some x]) @ map Some xs @ post))) ?w1"
    by (rule Cons.IH[OF s1 _ _ _ lm Cons.prems(6) run]) (use Cons.prems(2,4) w1 in simp_all)
  then show ?case unfolding store_is_def by (simp add: w1)
qed

lemma copy_loop_Throws:
  assumes "heap w s = Some (spre @ map Some xs @ spost)" and "length spre = i"
    and "heap w d = Some (map Some zs @ replicate m None)" and "length zs = i"
    and "length xs \<le> m" and "s \<noteq> d"
    and "copy_loop T (Some s) (Some d) i (length xs) w = (Throws e, w')"
  shows "store_is w' ((heap w)(d := Some (replicate (i + m) None))) w"
  using assms
proof (induction xs arbitrary: spre zs i m w)
  case Nil
  then show ?case by simp
next
  case (Cons x xs)
  obtain m' where m: "m = Suc m'" using Cons.prems(5) by (cases m) auto
  have pk: "peek w (Some s) i = Some x"
    using Cons.prems(1,2) by (simp add: peek_Some nth_append)
  obtain ok e1 where cp: "copy_ctor T x (env w) = (ok, e1)"
    by (cases "copy_ctor T x (env w)")
  show ?case
  proof (cases ok)
    case False
    have w': "w' = destroy T (Some d) 0 i (w\<lparr>env := e1\<rparr>)"
      using Cons.prems(7) pk cp False by simp
    have "heap (w\<lparr>env := e1\<rparr>) d = Some (map Some zs @ replicate m None)"
      using Cons.prems(3) by simp
    from destroy_live[OF this, of T] Cons.prems(4) w'
    show ?thesis unfolding store_is_def by (simp add: replicate_add)
  next
    case True
    let ?w1 = "construct_at (Some d) i x (w\<lparr>env := e1\<rparr>)"
    have w1: "?w1 = w\<lparr>env := e1, heap := (heap w)(d := Some (map Some (zs @ [x]) @ replicate m' None))\<rparr>"
      using Cons.prems(3,4) m
      by (simp add: construct_at_def put_slot_Some list_update_append)
    have run: "copy_loop T (Some s) (Some d) (Suc i) (length xs) ?w1 = (Throws e, w')"
      using Cons.prems(7) pk cp True by simp
    have s1: "heap ?w1 s = Some ((spre @ [Some x]) @ map Some xs @ spost)"
      using Cons.prems(1,6) by (simp add: w1)
    have d1: "heap ?w1 d = Some (map Some (zs @ [x]) @ replicate m' None)"
      by (simp add: w1)
    have "store_is w' ((heap ?w1)(d := Some (replicate (Suc i + m') None))) ?w1"
      by (rule Cons.IH[OF s1 _ d1 _ _ Cons.prems(6) run]) (use Cons.prems(2,4,5) m in simp_all)
    then show ?thesis unfolding store_is_def by (simp add: w1 m)
  qed
qed

lemma Vector_copy_Returns:
  assumes ok: "vec_ok w other" and hk: "heap_ok w"
    and run: "Vector_copy T other w = (Returns tmp, w1)"
  shows "m_size tmp = m_size other" and "m_capacity tmp = m_capacity other"
    and "m_data tmp = (if m_capacity other = 0 then None else Some (brk w))"
    and "vec_ok w1 tmp" and "elems w1 tmp = elems w other"
    and "\<And>a. a \<noteq> brk w \<Longrightarrow> heap w1 a = heap w a"
    and "brk w \<le> brk w1" and "ub w1 = ub w" and "heap_ok w1"
proof -
  let ?n = "m_size other" and ?c = "m_capacity other" and ?xs = "elems w other"
  have len: "length ?xs = ?n" using ok by (rule length_elems)
  obtain r0 w0 where al: "Allocate T ?c w = (r0, w0)" by (cases "Allocate T ?c w")
  obtain d where r0: "r0 = Returns d" using run al by (cases r0) (auto simp: Vector_copy_def)
  obtain r1 w1' where cp: "uninitialized_copy T (m_data other) ?n d w0 = (r1, w1')"
    by (cases "uninitialized_copy T (m_data other) ?n d w0")
  have r1: "r1 = Returns ()" using run al r0 cp by (cases r1) (auto simp: Vector_copy_def)
  have res: "tmp = \<lparr>m_size = ?n, m_capacity = ?c, m_data = d\<rparr>" "w1 = w1'"
    using run al r0 cp r1 by (auto simp: Vector_copy_def)
  have "m_size tmp = ?n \<and> m_capacity tmp = ?c \<and>
    m_data tmp = (if ?c = 0 then None else Some (brk w)) \<and> vec_ok w1 tmp \<and>
    elems w1 tmp = ?xs \<and> (\<forall>a. a \<noteq> brk w \<longrightarrow> heap w1 a = heap w a) \<and>
    brk w \<le> brk w1 \<and> ub w1 = ub w \<and> heap_ok w1"
  proof (cases "?c = 0")
    case True
    then have n0: "?n = 0" using vec_ok_le[OF ok] by simp
    have "d = None" "w0 = w" using al r0 True by (simp_all add: Allocate_def)
    moreover have "w1' = w0" using cp n0 by (simp add: uninitialized_copy_def)
    moreover have "?xs = []" using len n0 by simp
    ultimately show ?thesis using res True n0 hk
      by (simp add: vec_ok_def elems_def slots_def)
  next
    case False
    then have c: "0 < ?c" by simp
    obtain a where a: "m_data other = Some a" using vec_ok_data[OF ok c] by blast
    have d: "d = Some (brk w)"
      and w0: "store_is w0 ((heap w)(brk w := Some (replicate ?c None))) (w\<lparr>brk := Suc (brk w)\<rparr>)"
      using Allocate_Returns[OF al[unfolded r0] c] by auto
    have blk: "heap w a = Some (map Some ?xs @ replicate (?c - ?n) None)"
      using vec_ok_block[OF ok a] .
    have ne: "a \<noteq> brk w" using heap_ok_fresh[OF hk blk] .
    have s0: "heap w0 a = Some ([] @ map Some ?xs @ replicate (?c - ?n) None)"
      using store_is_heap[OF w0, of a] ne blk by simp
    have "replicate ?c (None::'a option) = replicate ?n None @ replicate (?c - ?n) None"
      using vec_ok_le[OF ok] by (simp flip: replicate_add)
    then have d0: "heap w0 (brk w) = Some ([] @ replicate ?n None @ replicate (?c - ?n) None)"
      using store_is_heap[OF w0, of "brk w"] by simp
    have run1: "copy_loop T (Some a) (Some (brk w)) 0 (length ?xs) w0 = (Returns (), w1')"
      using cp r1 d a len by (simp add: uninitialized_copy_def)
    from copy_loop_Returns[OF s0 _ d0 _ _ ne run1] len
    have st: "store_is w1' ((heap w0)(brk w := Some ([] @ map Some ?xs @ replicate (?c - ?n) None))) w0"
      by simp
    have hp: "heap w1 (brk w) = Some (map Some ?xs @ replicate (?c - ?n) None)"
      using store_is_heap[OF st, of "brk w"] res(2) by simp
    have "m_data tmp = Some (brk w)" "m_size tmp = length ?xs"
      "m_capacity tmp = length ?xs + (?c - ?n)" "0 < m_capacity tmp"
      using res(1) d len c vec_ok_le[OF ok] by simp_all
    from vec_okI[OF this(1) hp this(2,3,4)]
    have "vec_ok w1 tmp" "elems w1 tmp = ?xs" .
    moreover have fr: "\<forall>a. a \<noteq> brk w \<longrightarrow> heap w1 a = heap w a"
      using store_is_heap[OF st] store_is_heap[OF w0] res(2) by simp
    moreover have b: "brk w1 = Suc (brk w)"
      using store_is_brk[OF st] store_is_brk[OF w0] res(2) by simp
    moreover have "ub w1 = ub w"
      using store_is_ub[OF st] store_is_ub[OF w0] res(2) by simp
    moreover have "heap_ok w1" using hk fr b by (auto simp: heap_ok_def)
    ultimately show ?thesis using res(1) d False by simp
  qed
  then show "m_size tmp = m_size other" and "m_capacity tmp = m_capacity other"
    and "m_data tmp = (if m_capacity other = 0 then None else Some (brk w))"
    and "vec_ok w1 tmp" and "elems w1 tmp = elems w other"
    and "\<And>a. a \<noteq> brk w \<Longrightarrow> heap w1 a = heap w a"
    and "brk w \<le> brk w1" and "ub w1 = ub w" and "heap_ok w1"
    by simp_all
qed

lemma Vector_copy_Throws:
  assumes ok: "vec_ok w other" and hk: "heap_ok w"
    and run: "Vector_copy T other w = (Throws e, w1)"
  shows "\<And>a. heap w1 a = heap w a" and "ub w1 = ub w" and "heap_ok w1"
proof -
  let ?n = "m_size other" and ?c = "m_capacity other" and ?xs = "elems w other"
  have len: "length ?xs = ?n" using ok by (rule length_elems)
  obtain r0 w0 where al: "Allocate T ?c w = (r0, w0)" by (cases "Allocate T ?c w")
  have "(\<forall>a. heap w1 a = heap w a) \<and> ub w1 = ub w \<and> heap_ok w1"
  proof (cases r0)
    case (Throws e0)
    then have "w1 = w0" using run al by (simp add: Vector_copy_def)
    moreover have "heap w0 = heap w \<and> ub w0 = ub w \<and> brk w0 = brk w"
      using al Throws
      by (auto simp: Allocate_def operator_new_def split: if_splits prod.splits bool.splits)
    ultimately show ?thesis using hk by (simp add: heap_ok_def)
  next
    case (Returns d)
    obtain r1 w1' where cp: "uninitialized_copy T (m_data other) ?n d w0 = (r1, w1')"
      by (cases "uninitialized_copy T (m_data other) ?n d w0")
    have r1: "r1 = Throws e" and res: "w1 = Deallocate d w1'"
      using run al Returns cp by (cases r1; auto simp: Vector_copy_def)+
    have n0: "?n \<noteq> 0" using cp r1 by (cases "?n") (auto simp: uninitialized_copy_def)
    then have c: "0 < ?c" using vec_ok_le[OF ok] by simp
    obtain a where a: "m_data other = Some a" using vec_ok_data[OF ok c] by blast
    have d: "d = Some (brk w)"
      and w0: "store_is w0 ((heap w)(brk w := Some (replicate ?c None))) (w\<lparr>brk := Suc (brk w)\<rparr>)"
      using Allocate_Returns[OF al[unfolded Returns] c] by auto
    have blk: "heap w a = Some (map Some ?xs @ replicate (?c - ?n) None)"
      using vec_ok_block[OF ok a] .
    have ne: "a \<noteq> brk w" using heap_ok_fresh[OF hk blk] .
    have s0: "heap w0 a = Some ([] @ map Some ?xs @ replicate (?c - ?n) None)"
      using store_is_heap[OF w0, of a] ne blk by simp
    have d0: "heap w0 (brk w) = Some (map Some [] @ replicate ?c None)"
      using store_is_heap[OF w0, of "brk w"] by simp
    have run1: "copy_loop T (Some a) (Some (brk w)) 0 (length ?xs) w0 = (Throws e, w1')"
      using cp r1 d a len by (simp add: uninitialized_copy_def)
    have "length ?xs \<le> ?c" using len vec_ok_le[OF ok] by simp
    from copy_loop_Throws[OF s0 _ d0 _ this ne run1]
    have st: "store_is w1' ((heap w0)(brk w := Some (replicate (0 + ?c) None))) w0" by simp
    have w1: "w1 = w1'\<lparr>heap := (heap w1')(brk w := None)\<rparr>"
      using res d store_is_heap[OF st, of "brk w"]
      by (simp add: Deallocate_def operator_delete_def)
    have "heap w (brk w) = None" using hk by (simp add: heap_ok_def)
    then have "\<forall>a. heap w1 a = heap w a"
      using w1 store_is_heap[OF st] store_is_heap[OF w0] by simp
    moreover have "brk w1 = Suc (brk w)" "ub w1 = ub w"
      using w1 store_is_brk[OF st] store_is_brk[OF w0] store_is_ub[OF st] store_is_ub[OF w0]
      by simp_all
    ultimately show ?thesis using hk by (simp add: heap_ok_def)
  qed
  then show "\<And>a. heap w1 a = heap w a" and "ub w1 = ub w" and "heap_ok w1" by simp_all
qed

lemma Swap_vecs: "Swap v u = (u, v)"
  by (simp add: Swap_def vec_overwrite vec_eta)

text \<open>
  C7. Copy assignment constructs a temporary copy of \<open>other\<close>, swaps with it and destroys
  the temporary. When it returns, the target holds the elements of the source in a block
  of its own, and the source is as it was. When the copy constructor throws, the
  exception leaves the call with the table of objects and every block as before. When
  \<open>this\<close> is \<open>&other\<close> nothing happens at all. The two vectors, when distinct, own distinct
  blocks.
\<close>

theorem copy_assign_result:
  assumes "vec_ok w (os this)" and "vec_ok w (os other)" and "heap_ok w"
    and "this \<noteq> other \<longrightarrow> m_data (os this) = None \<or> m_data (os this) \<noteq> m_data (os other)"
    and "copy_assign T this other os w = (r, os', w')"
  shows "(this = other \<longrightarrow> r = Returns () \<and> os' = os \<and> w' = w) \<and>
         (this \<noteq> other \<and> r = Returns () \<longrightarrow>
            m_size (os' this) = m_size (os other) \<and>
            elems w' (os' this) = elems w (os other) \<and> vec_ok w' (os' this) \<and>
            (m_data (os' this) = None \<or> m_data (os' this) \<noteq> m_data (os' other)) \<and>
            os' other = os other \<and>
            elems w' (os' other) = elems w (os other) \<and> vec_ok w' (os' other)) \<and>
         (\<forall>e. r = Throws e \<longrightarrow>
            os' = os \<and> (\<forall>a. heap w' a = heap w a) \<and> ub w' = ub w \<and>
            elems w' (os this) = elems w (os this) \<and> vec_ok w' (os this)) \<and>
         (\<forall>e. this \<noteq> other \<and> fst (Vector_copy T (os other) w) = Throws e \<longrightarrow> r = Throws e)"
proof (cases "this = other")
  case True
  then show ?thesis using assms(5) by (auto simp: copy_assign_def)
next
  case False
  obtain r1 w1 where vc: "Vector_copy T (os other) w = (r1, w1)"
    by (cases "Vector_copy T (os other) w")
  show ?thesis
  proof (cases r1)
    case (Throws e)
    have res: "r = Throws e" "os' = os" "w' = w1"
      using assms(5) False vc Throws by (auto simp: copy_assign_def)
    note t = Vector_copy_Throws[OF assms(2,3) vc[unfolded Throws]]
    note f = vec_ok_frame[OF assms(1), of w1, OF t(1)]
    show ?thesis using res t f False vc Throws by simp
  next
    case (Returns tmp)
    have res: "r = Returns ()" "os' = os(this := tmp)" "w' = Vector_dtor T (os this) w1"
      using assms(5) False vc Returns by (auto simp: copy_assign_def Swap_vecs)
    note c = Vector_copy_Returns[OF assms(2,3) vc[unfolded Returns]]
    have fresh_this: "m_data (os this) \<noteq> Some (brk w)"
    proof
      assume a: "m_data (os this) = Some (brk w)"
      from heap_ok_fresh[OF assms(3) vec_ok_block[OF assms(1) a]] show False by simp
    qed
    have fresh_other: "m_data (os other) \<noteq> Some (brk w)"
    proof
      assume a: "m_data (os other) = Some (brk w)"
      from heap_ok_fresh[OF assms(3) vec_ok_block[OF assms(2) a]] show False by simp
    qed
    have old_ok: "vec_ok w1 (os this)"
      by (rule vec_ok_frame(1)[OF assms(1)]) (use c(6) fresh_this in auto)
    note d = Vector_dtor_ok[OF old_ok, where T = T, folded res(3)]
    have tmp_data: "m_data tmp = None \<or> m_data tmp = Some (brk w)"
      using c(3) by simp
    have f_tmp: "\<And>a. m_data tmp = Some a \<Longrightarrow> heap w' a = heap w1 a"
      using d(1) tmp_data fresh_this by auto
    have f_other: "\<And>a. m_data (os other) = Some a \<Longrightarrow> heap w' a = heap w a"
      using d(1) c(6) fresh_other assms(4) False by auto
    note t = vec_ok_frame[OF c(4) f_tmp]
    note o = vec_ok_frame[OF assms(2) f_other]
    have "m_data tmp = None \<or> m_data tmp \<noteq> m_data (os other)"
      using tmp_data fresh_other by auto
    then show ?thesis using res False c(1,5) t o vc Returns by simp
  qed
qed

lemma two_objects_ok:
  "vec_ok cmp_world (two_objects 0)" "vec_ok cmp_world (two_objects 1)" "heap_ok cmp_world"
  "m_data (two_objects 0) = None \<or> m_data (two_objects 0) \<noteq> m_data (two_objects 1)"
proof -
  show "vec_ok cmp_world (two_objects 0)" "vec_ok cmp_world (two_objects 1)"
    by (simp_all add: two_objects_def cmp_ok)
  show "heap_ok cmp_world" by (simp add: heap_ok_def cmp_world_def)
  show "m_data (two_objects 0) = None \<or> m_data (two_objects 0) \<noteq> m_data (two_objects 1)"
    by (simp add: two_objects_def vec_1_2_def vec_1_2_3_def)
qed

theorem copy_assign_result_witness:
  "vec_ok cmp_world (two_objects 0) \<and> vec_ok cmp_world (two_objects 1) \<and> heap_ok cmp_world \<and>
   (0::nat) \<noteq> 1 \<and> m_data (two_objects 0) \<noteq> m_data (two_objects 1) \<and>
   fst (copy_assign IntT 0 1 two_objects cmp_world) = Returns () \<and>
   elems (snd (snd (copy_assign IntT 0 1 two_objects cmp_world)))
         (fst (snd (copy_assign IntT 0 1 two_objects cmp_world)) 0) = [1, 2, 3] \<and>
   fst (snd (copy_assign IntT 0 1 two_objects cmp_world)) 1 = two_objects 1"
proof -
  define r where "r = copy_assign IntT 0 1 two_objects cmp_world"
  have fr: "fst r = Returns ()" unfolding r_def by code_simp
  have er: "copy_assign IntT 0 1 two_objects cmp_world = (fst r, fst (snd r), snd (snd r))"
    unfolding r_def by simp
  have h4: "(0::nat) \<noteq> 1 \<longrightarrow> m_data (two_objects 0) = None \<or> m_data (two_objects 0) \<noteq> m_data (two_objects 1)"
    using two_objects_ok(4) by simp
  note th = copy_assign_result[OF two_objects_ok(1,2,3) h4 er]
  have "elems (snd (snd r)) (fst (snd r) 0) = elems cmp_world (two_objects 1)"
    "fst (snd r) 1 = two_objects 1"
    using th fr by simp_all
  then have "elems (snd (snd r)) (fst (snd r) 0) = [1, 2, 3]" "fst (snd r) 1 = two_objects 1"
    by (simp_all add: two_objects_def cmp_elems)
  moreover have "(0::nat) \<noteq> 1" "m_data (two_objects 0) \<noteq> m_data (two_objects 1)"
    by (simp_all add: two_objects_def vec_1_2_def vec_1_2_3_def)
  ultimately
  have "vec_ok cmp_world (two_objects 0) \<and> vec_ok cmp_world (two_objects 1) \<and> heap_ok cmp_world \<and>
   (0::nat) \<noteq> 1 \<and> m_data (two_objects 0) \<noteq> m_data (two_objects 1) \<and>
   fst r = Returns () \<and> elems (snd (snd r)) (fst (snd r) 0) = [1, 2, 3] \<and>
   fst (snd r) 1 = two_objects 1"
    using two_objects_ok fr by blast
  then show ?thesis unfolding r_def .
qed

theorem move_transfers_witness:
  "vec_ok cmp_world (two_objects 0) \<and> vec_ok cmp_world (two_objects 1) \<and> (0::nat) \<noteq> 1 \<and>
   (m_data (two_objects 0) = None \<or> m_data (two_objects 0) \<noteq> m_data (two_objects 1)) \<and>
   fst (move_assign IntT 0 1 two_objects cmp_world) 0 = vec_1_2_3 \<and>
   fst (move_assign IntT 0 1 two_objects cmp_world) 1 = Vector_default \<and>
   elems (snd (move_assign IntT 0 1 two_objects cmp_world))
         (fst (move_assign IntT 0 1 two_objects cmp_world) 0) = [1, 2, 3]"
proof -
  have ne: "(0::nat) \<noteq> 1" by simp
  note th = move_transfers[OF two_objects_ok(1,2) ne two_objects_ok(4), of IntT]
  have "fst (move_assign IntT 0 1 two_objects cmp_world) 0 = two_objects 1"
    "fst (move_assign IntT 0 1 two_objects cmp_world) 1 = Vector_default"
    "elems (snd (move_assign IntT 0 1 two_objects cmp_world))
         (fst (move_assign IntT 0 1 two_objects cmp_world) 0) = elems cmp_world (two_objects 1)"
    using th by blast+
  then show ?thesis
    using two_objects_ok ne by (simp add: two_objects_def cmp_elems)
qed

section \<open>When growth fails\<close>



lemma move_loop_nothrow:
  assumes "\<forall>x e. fst (move_ctor T x e)"
  shows "fst (move_loop T src dst i k w) = Returns ()"
proof (induction k arbitrary: i w)
  case 0
  then show ?case by simp
next
  case (Suc k)
  show ?case
  proof (cases "peek w src i")
    case None
    then show ?thesis by simp
  next
    case (Some x)
    obtain ok r e where mv: "move_ctor T x (env w) = (ok, r, e)"
      by (cases "move_ctor T x (env w)")
    have "ok" using assms[rule_format, of x "env w"] mv by simp
    then show ?thesis using Some mv Suc.IH by simp
  qed
qed

text \<open>What a slot of the old block may hold after a growth that failed.\<close>

lemma Reallocate_Throws:
  assumes ok: "vec_ok w v" and hk: "heap_ok w" and cap: "0 < new_cap" "m_size v + m \<le> new_cap"
    and nothrow: "\<forall>x e. fst (move_ctor T x e)"
    and extra: "\<And>w1 w2 pre post e.
        heap w1 (brk w) = Some (pre @ replicate m None @ post) \<Longrightarrow> length pre = m_size v \<Longrightarrow>
        extra (Some (brk w)) w1 = (Throws e, w2) \<Longrightarrow> store_is w2 (heap w1) w1"
    and run: "Reallocate T new_cap extra v w = (Throws e, v', w')"
  shows "v' = v \<and> vec_ok w' v \<and>
         list_all2 (\<lambda>x r. r = x \<or> (\<exists>e e'. move_ctor T x e = (True, r, e'))) (elems w v) (elems w' v) \<and>
         (\<forall>a. m_data v \<noteq> Some a \<longrightarrow> heap w' a = heap w a) \<and> ub w' = ub w \<and> heap_ok w'"
proof -
  let ?n = "m_size v"
  let ?xs = "elems w v"
  let ?R = "\<lambda>x r. r = x \<or> (\<exists>e e'. move_ctor T x e = (True, r, e'))"
  have len: "length ?xs = ?n" using ok by (rule length_elems)
  have same: "list_all2 ?R ?xs ?xs" by (simp add: list_all2_same)
  have v': "v' = v" using Reallocate_fields[OF run] by simp
  obtain r0 w0 where al: "Allocate T new_cap w = (r0, w0)" by (cases "Allocate T new_cap w")
  show ?thesis
  proof (cases r0)
    case (Throws e0)
    then have "w' = w0" using run al by (simp add: Reallocate_def)
    moreover have "heap w0 = heap w \<and> ub w0 = ub w \<and> brk w0 = brk w"
      using al Throws
      by (auto simp: Allocate_def operator_new_def split: if_splits prod.splits bool.splits)
    ultimately have fr: "heap w' = heap w" "ub w' = ub w" "brk w' = brk w" by simp_all
    have "vec_ok w' v" "elems w' v = ?xs"
      using vec_ok_frame[OF ok, of w'] fr(1) by simp_all
    then show ?thesis using v' same fr hk by (simp add: heap_ok_def)
  next
    case (Returns nd)
    have nd: "nd = Some (brk w)"
      and w0: "store_is w0 ((heap w)(brk w := Some (replicate new_cap None))) (w\<lparr>brk := Suc (brk w)\<rparr>)"
      using Allocate_Returns[OF al[unfolded Returns] cap(1)] by auto
    obtain r1 w1 where mv: "uninitialized_move T (m_data v) ?n nd w0 = (r1, w1)"
      by (cases "uninitialized_move T (m_data v) ?n nd w0")
    have r1: "r1 = Returns ()"
      using move_loop_nothrow[OF nothrow, of "m_data v" nd 0 ?n w0] mv
      by (simp add: uninitialized_move_def)
    obtain r2 w2 where ex: "extra nd w1 = (r2, w2)" by (cases "extra nd w1")
    have r2: "r2 = Throws e"
      using run al Returns mv r1 ex by (cases r2) (auto simp: Reallocate_def)
    have res: "w' = Deallocate nd (destroy T nd 0 ?n w2)"
      using run al Returns mv r1 ex r2 by (auto simp: Reallocate_def)
    have split_raw: "replicate new_cap None = replicate ?n (None::'a option) @ replicate (new_cap - ?n) None"
      using cap(2) by (simp flip: replicate_add)
    have split_raw2: "replicate (new_cap - ?n) None
        = replicate m (None::'a option) @ replicate (new_cap - (?n + m)) None"
      using cap(2) by (simp flip: replicate_add)
    have fresh: "heap w (brk w) = None" using hk by (simp add: heap_ok_def)
    have "\<exists>rs. length rs = ?n \<and> list_all2 ?R ?xs rs \<and>
            (\<forall>a. m_data v = Some a \<longrightarrow>
                 heap w1 a = Some (map Some rs @ replicate (m_capacity v - ?n) None)) \<and>
            (\<forall>a. m_data v \<noteq> Some a \<longrightarrow> a \<noteq> brk w \<longrightarrow> heap w1 a = heap w a) \<and>
            heap w1 (brk w) = Some (map Some ?xs @ replicate (new_cap - ?n) None) \<and>
            brk w1 = Suc (brk w) \<and> ub w1 = ub w"
    proof (cases "m_data v")
      case None
      have n0: "?n = 0" and e0: "?xs = []" using vec_ok_null[OF ok None] by auto
      have w1: "w1 = w0" using mv n0 by (simp add: uninitialized_move_def)
      show ?thesis
        using store_is_heap[OF w0] store_is_brk[OF w0] store_is_ub[OF w0] w1 n0 e0 None
        by (intro exI[of _ "[]"]) simp
    next
      case (Some a)
      have blk: "heap w a = Some (map Some ?xs @ replicate (m_capacity v - ?n) None)"
        using vec_ok_block[OF ok Some] .
      have ne: "a \<noteq> brk w" using heap_ok_fresh[OF hk blk] .
      have s0: "heap w0 a = Some ([] @ map Some ?xs @ replicate (m_capacity v - ?n) None)"
        using store_is_heap[OF w0, of a] ne blk by simp
      have d0: "heap w0 (brk w) = Some ([] @ replicate ?n None @ replicate (new_cap - ?n) None)"
        using store_is_heap[OF w0, of "brk w"] split_raw by simp
      have run1: "move_loop T (Some a) (Some (brk w)) 0 (length ?xs) w0 = (Returns (), w1)"
        using mv r1 nd Some len by (simp add: uninitialized_move_def)
      from move_loop_Returns[OF s0 _ d0 _ _ ne run1] len
      obtain rs where rs: "length rs = ?n"
        "list_all2 (\<lambda>x r. \<exists>e e'. move_ctor T x e = (True, r, e')) ?xs rs"
        "store_is w1 ((heap w0)(a := Some ([] @ map Some rs @ replicate (m_capacity v - ?n) None),
                                brk w := Some ([] @ map Some ?xs @ replicate (new_cap - ?n) None))) w0"
        by auto
      have "list_all2 ?R ?xs rs"
        using rs(2) by (rule list_all2_mono) blast
      then show ?thesis
        using store_is_heap[OF rs(3)] store_is_heap[OF w0] store_is_brk[OF rs(3)] store_is_brk[OF w0]
          store_is_ub[OF rs(3)] store_is_ub[OF w0] rs(1) Some ne
        by (intro exI[of _ rs]) simp
    qed
    then obtain rs where rs: "length rs = ?n" "list_all2 ?R ?xs rs"
      "\<forall>a. m_data v = Some a \<longrightarrow> heap w1 a = Some (map Some rs @ replicate (m_capacity v - ?n) None)"
      "\<forall>a. m_data v \<noteq> Some a \<longrightarrow> a \<noteq> brk w \<longrightarrow> heap w1 a = heap w a"
      "heap w1 (brk w) = Some (map Some ?xs @ replicate (new_cap - ?n) None)"
      "brk w1 = Suc (brk w)" "ub w1 = ub w"
      by blast
    have "heap w1 (brk w) = Some (map Some ?xs @ replicate m None @ replicate (new_cap - (?n + m)) None)"
      using rs(5) split_raw2 by simp
    from extra[OF this _ ex[unfolded nd r2]] len
    have w2: "store_is w2 (heap w1) w1" by simp
    have "heap w2 (brk w) = Some (map Some ?xs @ replicate (new_cap - ?n) None)"
      using store_is_heap[OF w2, of "brk w"] rs(5) by simp
    from destroy_live[OF this, of T] len
    have w3: "store_is (destroy T nd 0 ?n w2)
        ((heap w2)(brk w := Some (replicate ?n None @ replicate (new_cap - ?n) None))) w2"
      using nd by simp
    have w': "w' = (destroy T nd 0 ?n w2)\<lparr>heap := (heap (destroy T nd 0 ?n w2))(brk w := None)\<rparr>"
      using res nd store_is_heap[OF w3, of "brk w"]
      by (simp add: Deallocate_def operator_delete_def)
    have h': "\<And>a. heap w' a = (if a = brk w then None else heap w1 a)"
      using w' store_is_heap[OF w3] store_is_heap[OF w2] by simp
    have b': "brk w' = Suc (brk w)" "ub w' = ub w"
      using w' store_is_brk[OF w3] store_is_brk[OF w2] store_is_ub[OF w3] store_is_ub[OF w2] rs(6,7)
      by simp_all
    have frame: "\<forall>a. m_data v \<noteq> Some a \<longrightarrow> heap w' a = heap w a"
      using h' rs(4) fresh by simp
    have hk': "heap_ok w'"
    proof -
      have "heap w' a = None" if "Suc (brk w) \<le> a" for a
      proof (cases "m_data v = Some a")
        case True
        from heap_ok_fresh[OF hk vec_ok_block[OF ok True]] hk that vec_ok_block[OF ok True]
        show ?thesis by (simp add: heap_ok_def)
      next
        case False
        then show ?thesis using frame hk that by (simp add: heap_ok_def)
      qed
      then show ?thesis using b'(1) by (simp add: heap_ok_def)
    qed
    have "vec_ok w' v \<and> elems w' v = rs"
    proof (cases "m_data v")
      case None
      have "?n = 0" "?xs = []" using vec_ok_null[OF ok None] by auto
      then have "rs = []" using rs(1) by simp
      moreover have "elems w' v = []" using None by (simp add: elems_def slots_def)
      moreover have "vec_ok w' v" using ok None by (simp add: vec_ok_def)
      ultimately show ?thesis by simp
    next
      case (Some a)
      have ne: "a \<noteq> brk w" using heap_ok_fresh[OF hk vec_ok_block[OF ok Some]] .
      have hp: "heap w' a = Some (map Some rs @ replicate (m_capacity v - ?n) None)"
        using h'[of a] rs(3) Some ne by simp
      have "m_size v = length rs" "m_capacity v = length rs + (m_capacity v - ?n)" "0 < m_capacity v"
        using rs(1) vec_ok_le[OF ok] ok Some by (auto simp: vec_ok_def)
      from vec_okI[OF Some hp this] show ?thesis by simp
    qed
    then show ?thesis using v' rs(2) frame b'(2) hk' by simp
  qed
qed


lemma Reallocate_rolled_back:
  assumes ok: "vec_ok w v" and hk: "heap_ok w" and cap: "0 < new_cap" "m_size v + m \<le> new_cap"
    and nothrow: "\<forall>x e. fst (move_ctor T x e)"
    and extra: "\<And>w1 w2 pre post e.
        heap w1 (brk w) = Some (pre @ replicate m None @ post) \<Longrightarrow> length pre = m_size v \<Longrightarrow>
        extra (Some (brk w)) w1 = (Throws e, w2) \<Longrightarrow> store_is w2 (heap w1) w1"
    and run: "Reallocate T new_cap extra v w = (Throws e, v', w')"
  shows "rolled_back T v w v' w'"
proof -
  have "v' = v \<and> vec_ok w' v \<and>
         list_all2 (\<lambda>x r. r = x \<or> (\<exists>e e'. move_ctor T x e = (True, r, e'))) (elems w v) (elems w' v) \<and>
         (\<forall>a. m_data v \<noteq> Some a \<longrightarrow> heap w' a = heap w a) \<and> ub w' = ub w \<and> heap_ok w'"
    by (rule Reallocate_Throws[OF ok hk cap nothrow _ run]) (rule extra)
  then show ?thesis unfolding rolled_back_def by blast
qed


lemma no_extra_Throws: "no_extra p w1 = (Throws e, w2) \<Longrightarrow> store_is w2 (heap w1) w1"
  by (simp add: no_extra_def)




lemma ShrinkToFit_Throws:
  assumes ok: "vec_ok w v" and hk: "heap_ok w" and nothrow: "\<forall>x e. fst (move_ctor T x e)"
    and run: "ShrinkToFit T v w = (Throws e, v', w')"
  shows "rolled_back T v w v' w'"
proof -
  have s: "m_size v \<noteq> 0" "m_size v < m_capacity v"
    using run by (auto simp: ShrinkToFit_def split: if_splits)
  then have re: "Reallocate T (m_size v) no_extra v w = (Throws e, v', w')"
    using run by (simp add: ShrinkToFit_def)
  have c: "0 < m_size v" "m_size v + 0 \<le> m_size v" using s by simp_all
  show ?thesis
    by (rule Reallocate_rolled_back[OF ok hk c nothrow _ re]) (rule no_extra_Throws)
qed




text \<open>
  When the move constructor itself throws, \<open>std::uninitialized_move\<close> has already
  destroyed what it built in the new block, and the handler's \<open>std::destroy\<close> runs over
  the same slots again: destructors are called on raw memory.
\<close>

lemma failed_transfer_destroys_twice:
  "fst (PushBack Fragile 9 fragile_vec (fragile_world 0)) = Throws ElementFailure \<and>
   \<not> ub (fragile_world 0) \<and> ub (snd (snd (PushBack Fragile 9 fragile_vec (fragile_world 0))))"
proof -
  have "fst (PushBack Fragile 9 fragile_vec (fragile_world 0)) = Throws ElementFailure"
    "ub (snd (snd (PushBack Fragile 9 fragile_vec (fragile_world 0))))"
    by code_simp+
  then show ?thesis by (simp add: fragile_world_def)
qed



section \<open>The representation invariant\<close>
















end
